theory Spec2Isabelle
  imports Complex_Main
begin

section \<open>JavaScript values\<close>

text \<open>
  A finite IEEE-754 double is kept as its integer significand and binary exponent:
  \<open>Fin m e\<close> denotes \<open>m * 2 ^ e\<close> with \<open>\<bar>m\<bar> < 2 ^ 53\<close> and \<open>- 1074 \<le> e\<close>, and
  \<open>2 ^ 52 \<le> \<bar>m\<bar>\<close> unless \<open>e = - 1074\<close> (zero and the subnormals). Negative zero is
  identified with zero: no result of this program depends on the sign of a zero.
\<close>

datatype number = Fin int int | PosInf | NegInf | NaN

text \<open>
  The values a JavaScript variable of this program can hold, as far as the program
  tells them apart: a string, a number, a boolean, \<open>undefined\<close>, \<open>null\<close>, or an
  object with its own properties (a parsed JSON object or array, a function).
\<close>

datatype jsval =
  JStr string | JNum number | JBool bool | JUndefined | JNull | JObj "(string \<times> jsval) list"

fun truthy :: "jsval \<Rightarrow> bool" where
  "truthy (JStr s) = (s \<noteq> [])"
| "truthy (JNum (Fin m e)) = (m \<noteq> 0)"
| "truthy (JNum NaN) = False"
| "truthy (JNum _) = True"
| "truthy (JBool b) = b"
| "truthy JUndefined = False"
| "truthy JNull = False"
| "truthy (JObj kvs) = True"

text \<open>
  Reading a property the program names (\<open>ethereum\<close>, \<open>usd\<close>): the own property of an
  object, \<open>undefined\<close> where there is none and on a primitive. The program reads a
  property only after it has found the value truthy, so never on \<open>undefined\<close> or \<open>null\<close>.
\<close>

fun get_prop :: "jsval \<Rightarrow> string \<Rightarrow> jsval" where
  "get_prop (JObj kvs) k = (case map_of kvs k of Some v \<Rightarrow> v | None \<Rightarrow> JUndefined)"
| "get_prop _ k = JUndefined"

text \<open>
  An \<open>Error\<close> object as the catch blocks read it: \<open>error.message\<close>, \<open>error.code\<close>
  (absent on a plain \<open>new Error\<close>) and \<open>error.response.status\<close> (present on an HTTP
  error response only).
\<close>

record js_error =
  message :: string
  code :: "string option"
  response_status :: "int option"

definition new_Error :: "string \<Rightarrow> js_error" where
  "new_Error msg = \<lparr>message = msg, code = None, response_status = None\<rparr>"

section \<open>Numbers\<close>

text \<open>The number of binary digits of a positive integer.\<close>

function bitlen :: "int \<Rightarrow> nat" where
  "bitlen n = (if n \<le> 0 then 0 else Suc (bitlen (n div 2)))"
  by pat_completeness auto
termination
  by (relation "measure nat") auto

declare bitlen.simps [simp del]

text \<open>
  \<open>round_half_even n d\<close> is the integer nearest to \<open>n / d\<close> for \<open>0 \<le> n\<close> and
  \<open>0 < d\<close>, the even one of the two at a tie (IEEE-754 round to nearest, ties to even).
\<close>

definition round_half_even :: "int \<Rightarrow> int \<Rightarrow> int" where
  "round_half_even n d =
     (let q = n div d; r = n mod d
      in if 2 * r < d then q else if d < 2 * r then q + 1 else if even q then q else q + 1)"

text \<open>\<open>floor_log2 p q\<close> is the \<open>e\<close> with \<open>2 ^ e \<le> p / q < 2 ^ (e + 1)\<close>, for positive \<open>p\<close>, \<open>q\<close>.\<close>

definition floor_log2 :: "int \<Rightarrow> int \<Rightarrow> int" where
  "floor_log2 p q =
     (let d = int (bitlen p) - int (bitlen q)
      in if (if 0 \<le> d then q * 2 ^ nat d \<le> p else q \<le> p * 2 ^ nat (- d)) then d else d - 1)"

text \<open>
  \<open>to_double p q\<close> is the Number nearest to the fraction \<open>p / q\<close> (\<open>0 < q\<close>): 53
  significant bits in the binade of the value, the subnormal spacing \<open>2 ^ - 1074\<close>
  below \<open>2 ^ - 1022\<close>, and an infinity once the rounded value reaches \<open>2 ^ 1024\<close>. This
  is what \<open>Number(n)\<close> does to a bigint (\<open>q = 1\<close>), what a numeric literal denotes
  and what \<open>parseFloat\<close> does to a decimal string.
\<close>

definition to_double :: "int \<Rightarrow> int \<Rightarrow> number" where
  "to_double p q =
     (if p = 0 then Fin 0 (- 1074)
      else
        let a = \<bar>p\<bar>;
            E = max (floor_log2 a q) (- 1022);
            s = 52 - E;
            n = (if 0 \<le> s then round_half_even (a * 2 ^ nat s) q
                 else round_half_even a (q * 2 ^ nat (- s)));
            m = (if n = 2 ^ 53 then 2 ^ 52 else n);
            E' = (if n = 2 ^ 53 then E + 1 else E)
        in if 1023 < E' then (if 0 < p then PosInf else NegInf)
           else Fin (if 0 < p then m else - m) (E' - 52))"

text \<open>The rational a finite Number denotes.\<close>

definition pow2 :: "int \<Rightarrow> rat" where
  "pow2 e = (if 0 \<le> e then 2 ^ nat e else 1 / 2 ^ nat (- e))"

fun value_of :: "number \<Rightarrow> rat" where
  "value_of (Fin m e) = of_int m * pow2 e"
| "value_of _ = 0"

text \<open>\<open>a < b\<close> and \<open>a <= b\<close> on Numbers: false whenever an operand is \<open>NaN\<close>.\<close>

fun num_less :: "number \<Rightarrow> number \<Rightarrow> bool" where
  "num_less NaN _ = False"
| "num_less _ NaN = False"
| "num_less _ NegInf = False"
| "num_less NegInf _ = True"
| "num_less PosInf _ = False"
| "num_less _ PosInf = True"
| "num_less (Fin m1 e1) (Fin m2 e2) =
     (let k = min e1 e2 in m1 * 2 ^ nat (e1 - k) < m2 * 2 ^ nat (e2 - k))"

fun num_le :: "number \<Rightarrow> number \<Rightarrow> bool" where
  "num_le NaN _ = False"
| "num_le _ NaN = False"
| "num_le NegInf _ = True"
| "num_le _ NegInf = False"
| "num_le _ PosInf = True"
| "num_le PosInf _ = False"
| "num_le (Fin m1 e1) (Fin m2 e2) =
     (let k = min e1 e2 in m1 * 2 ^ nat (e1 - k) \<le> m2 * 2 ^ nat (e2 - k))"

definition num_ge :: "number \<Rightarrow> number \<Rightarrow> bool" where
  "num_ge a b = num_le b a"

definition num_gt :: "number \<Rightarrow> number \<Rightarrow> bool" where
  "num_gt a b = num_less b a"

fun isNaN :: "number \<Rightarrow> bool" where
  "isNaN NaN = True"
| "isNaN _ = False"

fun isFinite :: "number \<Rightarrow> bool" where
  "isFinite (Fin m e) = True"
| "isFinite _ = False"

text \<open>The product of two Numbers, rounded once.\<close>

fun num_mult :: "number \<Rightarrow> number \<Rightarrow> number" where
  "num_mult (Fin m1 e1) (Fin m2 e2) =
     (let e = e1 + e2
      in if 0 \<le> e then to_double (m1 * m2 * 2 ^ nat e) 1 else to_double (m1 * m2) (2 ^ nat (- e)))"
| "num_mult NaN _ = NaN"
| "num_mult _ NaN = NaN"
| "num_mult (Fin m e) b =
     (if m = 0 then NaN else if (0 < m) = (b = PosInf) then PosInf else NegInf)"
| "num_mult a (Fin m e) =
     (if m = 0 then NaN else if (0 < m) = (a = PosInf) then PosInf else NegInf)"
| "num_mult a b = (if a = b then PosInf else NegInf)"

subsection \<open>Decimal digits\<close>

definition digit_char :: "int \<Rightarrow> char" where
  "digit_char d = ''0123456789'' ! nat d"

text \<open>The decimal representation of a non-negative integer (\<open>0\<close> is \<open>''0''\<close>).\<close>

function digits_of :: "int \<Rightarrow> string" where
  "digits_of n = (if n < 10 then [digit_char n] else digits_of (n div 10) @ [digit_char (n mod 10)])"
  by pat_completeness auto
termination
  by (relation "measure nat") auto

declare digits_of.simps [simp del]

text \<open>\<open>BigInt.prototype.toString\<close>, and a Number that is an integer in a template.\<close>

definition int_to_string :: "int \<Rightarrow> string" where
  "int_to_string n = (if n < 0 then CHR ''-'' # digits_of (- n) else digits_of n)"

subsection \<open>\<open>Number.prototype.toString\<close> at and above \<open>10 ^ 21\<close>\<close>

text \<open>
  ECMA-262 \<open>Number::toString\<close>: the fewest significant decimal digits \<open>k\<close> such that
  some \<open>k\<close>-digit decimal rounds back to the Number; among those the one nearest to
  it, the even one at a tie. An integer \<open>X\<close> with \<open>n0\<close> digits lies between the
  \<open>k\<close>-digit decimals \<open>lo\<close> and \<open>lo + 10 ^ (n0 - k)\<close>; with all \<open>n0\<close> digits \<open>lo\<close> is
  \<open>X\<close> itself, so the search ends there at the latest.
\<close>

function shortest_decimal :: "nat \<Rightarrow> nat \<Rightarrow> int \<Rightarrow> nat \<times> int" where
  "shortest_decimal k n0 X =
     (if n0 \<le> k then (n0, X)
      else
        let sc = 10 ^ (n0 - k);
            lo = (X div sc) * sc;
            hi = lo + sc;
            rlo = (to_double lo 1 = to_double X 1);
            rhi = (to_double hi 1 = to_double X 1)
        in if rlo \<and> rhi then
             (k, if X - lo < hi - X then lo else if hi - X < X - lo then hi
                 else if even (X div sc) then lo else hi)
           else if rlo then (k, lo)
           else if rhi then (k, hi)
           else shortest_decimal (Suc k) n0 X)"
  by pat_completeness auto
termination
  by (relation "measure (\<lambda>(k, n0, X). n0 - k)") auto

declare shortest_decimal.simps [simp del]

text \<open>
  With more than 21 integer digits the result is in exponent notation: the first
  digit, a point and the other digits if there are any, then \<open>e+\<close> and the exponent.
\<close>

definition Number_toString_large :: "int \<Rightarrow> string" where
  "Number_toString_large X =
     (let (k, v) = shortest_decimal 1 (length (digits_of X)) X;
          ds = digits_of v;
          s = take k ds
      in (if k = 1 then s else hd s # CHR ''.'' # tl s)
         @ ''e+'' @ digits_of (int (length ds) - 1))"

subsection \<open>\<open>Number.prototype.toFixed\<close>\<close>

text \<open>
  \<open>nearest_scaled a e f\<close> is the integer \<open>n\<close> for which \<open>n / 10 ^ f\<close> is nearest to
  \<open>a * 2 ^ e\<close>, the larger one when two are equally near.
\<close>

definition nearest_scaled :: "int \<Rightarrow> int \<Rightarrow> nat \<Rightarrow> int" where
  "nearest_scaled a e f =
     (if 0 \<le> e then a * 2 ^ nat e * 10 ^ f
      else (2 * (a * 10 ^ f) + 2 ^ nat (- e)) div (2 * 2 ^ nat (- e)))"

text \<open>
  The digits of \<open>n\<close>, padded with zeros on the left to \<open>f + 1\<close> digits, with a point
  before the last \<open>f\<close> of them when \<open>f\<close> is not \<open>0\<close>.
\<close>

definition fixed_digits :: "nat \<Rightarrow> int \<Rightarrow> string" where
  "fixed_digits f n =
     (let m = digits_of n;
          m' = (if f \<noteq> 0 \<and> length m \<le> f then replicate (f + 1 - length m) CHR ''0'' @ m else m)
      in if f = 0 then m'
         else take (length m' - f) m' @ CHR ''.'' # drop (length m' - f) m')"

definition at_least_1e21 :: "int \<Rightarrow> int \<Rightarrow> bool" where
  "at_least_1e21 a e = (if 0 \<le> e then 10 ^ 21 \<le> a * 2 ^ nat e else 10 ^ 21 * 2 ^ nat (- e) \<le> a)"

fun toFixed :: "nat \<Rightarrow> number \<Rightarrow> string" where
  "toFixed f NaN = ''NaN''"
| "toFixed f PosInf = ''Infinity''"
| "toFixed f NegInf = ''-Infinity''"
| "toFixed f (Fin m e) =
     (if m < 0 then ''-'' else [])
     @ (if at_least_1e21 \<bar>m\<bar> e then Number_toString_large (\<bar>m\<bar> * 2 ^ nat e)
        else fixed_digits f (nearest_scaled \<bar>m\<bar> e f))"

section \<open>utils.js: trimming trailing zeros\<close>

text \<open>
  \<open>/\.?0+$/\<close> at one position: an optional point, then one or more \<open>0\<close> up to the end
  of the input. The greedy \<open>\.?\<close> first takes a point; giving it back cannot help,
  because \<open>0+\<close> would then have to start at that point.
\<close>

definition zeros_to_end :: "string \<Rightarrow> bool" where
  "zeros_to_end s = (s \<noteq> [] \<and> list_all (\<lambda>c. c = CHR ''0'') s)"

fun matches_here :: "string \<Rightarrow> bool" where
  "matches_here [] = False"
| "matches_here (c # cs) = ((c = CHR ''.'' \<and> zeros_to_end cs) \<or> zeros_to_end (c # cs))"

text \<open>
  \<open>s.replace(/\.?0+$/, '')\<close>: the regular expression has no \<open>g\<close> flag, so the leftmost
  match is removed, and since the match reaches the end of the input everything from
  its first character on goes.
\<close>

fun replace_trailing_zeros :: "string \<Rightarrow> string" where
  "replace_trailing_zeros [] = []"
| "replace_trailing_zeros (c # cs) =
     (if matches_here (c # cs) then [] else c # replace_trailing_zeros cs)"

fun trimDecimals :: "jsval \<Rightarrow> jsval" where
  "trimDecimals (JStr decimalStr) = JStr (replace_trailing_zeros decimalStr)"
| "trimDecimals v = v"

section \<open>utils.js: formatting amounts\<close>

text \<open>
  The \<open>weiAmount\<close> argument as \<open>ethers.formatUnits\<close> sees it: a value it converts to
  an integer and formats (a bigint, or a string of one, within the width the library
  supports), or a value it rejects by throwing.
\<close>

datatype BigNumberish = Numeric int | Rejected

text \<open>
  A bigint as the library takes it: \<open>ethers\<close> formats integers of up to 512 bits, the
  sign included, and throws on the others.
\<close>

definition of_bigint :: "int \<Rightarrow> BigNumberish" where
  "of_bigint n = (if - (2 ^ 511) \<le> n \<and> n < 2 ^ 511 then Numeric n else Rejected)"

text \<open>
  \<open>ethers.formatUnits(w, d)\<close> writes the exact decimal expansion of \<open>w / 10 ^ d\<close>, and
  \<open>parseFloat\<close> of that string is the Number nearest to it: \<open>to_double w (10 ^ d)\<close>.
  The literals \<open>1000\<close>, \<open>1\<close> and \<open>0.001\<close> are the Numbers nearest to them.
\<close>

definition formatGweiFromWei :: "BigNumberish \<Rightarrow> js_error + string" where
  "formatGweiFromWei weiAmount =
     (case weiAmount of
        Rejected \<Rightarrow> Inl (new_Error ''Invalid Wei amount for Gwei conversion'')
      | Numeric w \<Rightarrow>
          let num = to_double w (10 ^ 9)
          in Inr (if num_ge num (to_double 1000 1) then toFixed 0 num
                  else if num_ge num (to_double 1 1) then replace_trailing_zeros (toFixed 3 num)
                  else replace_trailing_zeros (toFixed 6 num)))"

definition formatEthFromWei :: "BigNumberish \<Rightarrow> js_error + string" where
  "formatEthFromWei weiAmount =
     (case weiAmount of
        Rejected \<Rightarrow> Inl (new_Error ''Invalid Wei amount for ETH conversion'')
      | Numeric w \<Rightarrow>
          let num = to_double w (10 ^ 18)
          in Inr (if num_ge num (to_double 1 1) then replace_trailing_zeros (toFixed 6 num)
                  else if num_ge num (to_double 1 1000) then replace_trailing_zeros (toFixed 6 num)
                  else replace_trailing_zeros (toFixed 9 num)))"

section \<open>\<open>parseFloat\<close>\<close>

text \<open>
  Strings are sequences of code units below 256. \<open>parseFloat\<close> skips leading white
  space and line terminators, then reads the longest prefix that is a
  \<open>StrDecimalLiteral\<close>: an optional sign, then \<open>Infinity\<close> or decimal digits with an
  optional point (at least one digit before or after it), then an exponent part if
  \<open>e\<close> or \<open>E\<close> is followed by an optionally signed digit. There is no such prefix
  exactly when the result is \<open>NaN\<close>.
\<close>

definition is_space :: "char \<Rightarrow> bool" where
  "is_space c = (c \<in> set [CHR 0x09, CHR 0x0A, CHR 0x0B, CHR 0x0C, CHR 0x0D, CHR 0x20, CHR 0xA0])"

definition is_digit :: "char \<Rightarrow> bool" where
  "is_digit c = (c \<in> set ''0123456789'')"

definition digit_val :: "char \<Rightarrow> int" where
  "digit_val c = int (length (takeWhile (\<lambda>d. d \<noteq> c) ''0123456789''))"

definition digits_val :: "string \<Rightarrow> int" where
  "digits_val ds = foldl (\<lambda>acc c. 10 * acc + digit_val c) 0 ds"

definition starts_with :: "string \<Rightarrow> string \<Rightarrow> bool" where
  "starts_with s pre = (take (length pre) s = pre)"

text \<open>The exponent part at the head of \<open>s\<close>, \<open>0\<close> when there is none.\<close>

definition exponent_part :: "string \<Rightarrow> int" where
  "exponent_part s =
     (case s of
        [] \<Rightarrow> 0
      | c # r \<Rightarrow>
          if c = CHR ''e'' \<or> c = CHR ''E'' then
            (let neg = starts_with r ''-'';
                 r' = (if starts_with r ''+'' \<or> neg then tl r else r);
                 ds = takeWhile is_digit r'
             in if ds = [] then 0 else if neg then - digits_val ds else digits_val ds)
          else 0)"

definition parse_unsigned :: "bool \<Rightarrow> string \<Rightarrow> number" where
  "parse_unsigned neg s =
     (if starts_with s ''Infinity'' then (if neg then NegInf else PosInf)
      else
        let ds1 = takeWhile is_digit s;
            r1 = dropWhile is_digit s;
            point = starts_with r1 ''.'';
            ds2 = (if point then takeWhile is_digit (tl r1) else []);
            r2 = (if point then dropWhile is_digit (tl r1) else r1)
        in if ds1 = [] \<and> ds2 = [] then NaN
           else
             let m = digits_val (ds1 @ ds2);
                 m' = (if neg then - m else m);
                 k = exponent_part r2 - int (length ds2)
             in if 0 \<le> k then to_double (m' * 10 ^ nat k) 1 else to_double m' (10 ^ nat (- k)))"

definition parseFloat :: "string \<Rightarrow> number" where
  "parseFloat s =
     (let t = dropWhile is_space s
      in if starts_with t ''-'' then parse_unsigned True (tl t)
         else if starts_with t ''+'' then parse_unsigned False (tl t)
         else parse_unsigned False t)"

text \<open>
  \<open>parseFloat\<close> first converts its argument to a string. A Number comes back as
  itself: \<open>Number::toString\<close> writes digits that read back as the same Number, and
  \<open>Infinity\<close>, \<open>-Infinity\<close> and \<open>NaN\<close> for the others. The program calls it on strings
  and Numbers only.
\<close>

fun parseFloat_arg :: "jsval \<Rightarrow> number" where
  "parseFloat_arg (JStr s) = parseFloat s"
| "parseFloat_arg (JNum n) = n"
| "parseFloat_arg _ = NaN"

section \<open>utils.js: validators\<close>

fun is_string :: "jsval \<Rightarrow> bool" where
  "is_string (JStr s) = True"
| "is_string _ = False"

fun is_number :: "jsval \<Rightarrow> bool" where
  "is_number (JNum n) = True"
| "is_number _ = False"

definition isPositiveNumber :: "jsval \<Rightarrow> bool" where
  "isPositiveNumber v =
     (if \<not> is_string v \<and> \<not> is_number v then False
      else let num = parseFloat_arg v
           in \<not> isNaN num \<and> isFinite num \<and> num_gt num (to_double 0 1))"

text \<open>Hexadecimal digits and their two cases.\<close>

definition is_hex :: "char \<Rightarrow> bool" where
  "is_hex c = (c \<in> set ''0123456789abcdefABCDEF'')"

definition to_lower :: "char \<Rightarrow> char" where
  "to_lower c = (case map_of (zip ''ABCDEF'' ''abcdef'') c of Some l \<Rightarrow> l | None \<Rightarrow> c)"

definition to_upper :: "char \<Rightarrow> char" where
  "to_upper c = (case map_of (zip ''abcdef'' ''ABCDEF'') c of Some u \<Rightarrow> u | None \<Rightarrow> c)"

definition mixed_case :: "string \<Rightarrow> bool" where
  "mixed_case h = (list_ex (\<lambda>c. c \<in> set ''abcdef'') h \<and> list_ex (\<lambda>c. c \<in> set ''ABCDEF'') h)"

text \<open>
  Modelled from the spec: the checksum casing that \<open>ethers.isAddress\<close> compares a
  mixed-case address with is computed inside the library, which is not part of the
  repository. Following section 4.2 of the specification it is the standard one: the
  hash of the 40 lower-case digits is taken, and a letter is upper case exactly when
  the hash digit at its position is 8 or more. The hash function (Keccak-256, as a
  list of hexadecimal digit values) is a parameter.
\<close>

definition checksum_case :: "(string \<Rightarrow> nat list) \<Rightarrow> string \<Rightarrow> string" where
  "checksum_case keccak256 h =
     (let low = map to_lower h
      in map (\<lambda>(c, n). if 8 \<le> n then to_upper c else c) (zip low (keccak256 low)))"

text \<open>
  Modelled from the spec: \<open>ethers.isAddress\<close>, the library function that decides
  \<open>isValidAddress\<close>, is not part of the repository. Following section 4.2 of the
  specification, it accepts exactly the strings of 42 characters that begin with \<open>0x\<close>,
  continue with 40 hexadecimal digits and, when these use both cases, carry the casing
  of the checksum.
\<close>

definition isAddress :: "(string \<Rightarrow> nat list) \<Rightarrow> string \<Rightarrow> bool" where
  "isAddress keccak256 s =
     (length s = 42 \<and> starts_with s ''0x'' \<and> list_all is_hex (drop 2 s)
      \<and> (if mixed_case (drop 2 s) then drop 2 s = checksum_case keccak256 (drop 2 s) else True))"

text \<open>
  \<open>isValidAddress\<close> itself: \<open>false\<close> for anything that is not a string, the library's
  answer otherwise. The modelled \<open>isAddress\<close> never throws, so the \<open>catch\<close> branch, which
  also answers \<open>false\<close>, has no case of its own.
\<close>

fun isValidAddress :: "(string \<Rightarrow> nat list) \<Rightarrow> jsval \<Rightarrow> bool" where
  "isValidAddress keccak256 (JStr address) = isAddress keccak256 address"
| "isValidAddress keccak256 _ = False"

section \<open>utils.js: the network table\<close>

record networkConfig =
  name :: string
  rpcUrl :: string
  chainId :: int

definition NETWORK_CONFIG :: "(string \<times> networkConfig) list" where
  "NETWORK_CONFIG =
     [(''base'', \<lparr>name = ''Base Mainnet'', rpcUrl = ''https://mainnet.base.org'', chainId = 8453\<rparr>),
      (''base-sepolia'',
         \<lparr>name = ''Base Sepolia Testnet'', rpcUrl = ''https://sepolia.base.org'', chainId = 84532\<rparr>)]"

text \<open>
  \<open>NETWORK_CONFIG\<close> is an object literal, so \<open>NETWORK_CONFIG[network]\<close> also finds the
  properties every object inherits from \<open>Object.prototype\<close>. Each of them is a function
  (or, for \<open>__proto__\<close>, the prototype object): a truthy value without an \<open>rpcUrl\<close>.
\<close>

definition Object_prototype_keys :: "string list" where
  "Object_prototype_keys =
     [''constructor'', ''__defineGetter__'', ''__defineSetter__'', ''hasOwnProperty'',
      ''__lookupGetter__'', ''__lookupSetter__'', ''isPrototypeOf'', ''propertyIsEnumerable'',
      ''toString'', ''valueOf'', ''__proto__'', ''toLocaleString'']"

datatype property = Own networkConfig | Inherited | Absent

definition get_property :: "string \<Rightarrow> property" where
  "get_property network =
     (case map_of NETWORK_CONFIG network of
        Some config \<Rightarrow> Own config
      | None \<Rightarrow> if network \<in> set Object_prototype_keys then Inherited else Absent)"

fun join :: "string \<Rightarrow> string list \<Rightarrow> string" where
  "join sep [] = []"
| "join sep [x] = x"
| "join sep (x # y # ys) = x @ sep @ join sep (y # ys)"

text \<open>
  \<open>getRpcUrl\<close> throws when the looked-up value is falsy, and returns its \<open>rpcUrl\<close>
  property otherwise, which is \<open>undefined\<close> on an inherited member.
\<close>

definition getRpcUrl :: "string \<Rightarrow> js_error + jsval" where
  "getRpcUrl network =
     (case get_property network of
        Absent \<Rightarrow>
          Inl (new_Error (''Unsupported network: '' @ network @ ''. Supported networks: ''
                 @ join '', '' (map fst NETWORK_CONFIG)))
      | Own config \<Rightarrow> Inr (JStr (rpcUrl config))
      | Inherited \<Rightarrow> Inr JUndefined)"

text \<open>
  \<open>getNetworkConfig\<close> returns the looked-up value itself: \<open>None\<close> stands for an
  inherited member, which is not a network configuration.
\<close>

definition getNetworkConfig :: "string \<Rightarrow> js_error + networkConfig option" where
  "getNetworkConfig network =
     (case get_property network of
        Absent \<Rightarrow> Inl (new_Error (''Unsupported network: '' @ network))
      | Own config \<Rightarrow> Inr (Some config)
      | Inherited \<Rightarrow> Inr None)"

section \<open>price.js\<close>

text \<open>\<open>s.includes(sub)\<close>: \<open>sub\<close> occurs in \<open>s\<close>.\<close>

fun str_includes :: "string \<Rightarrow> string \<Rightarrow> bool" where
  "str_includes [] sub = (sub = [])"
| "str_includes (c # cs) sub = (starts_with (c # cs) sub \<or> str_includes cs sub)"

text \<open>
  What \<open>axios.get\<close> settles to: a response, of which the program reads \<open>data\<close> only,
  or a rejection with an error.
\<close>

datatype axios_result = Response jsval | Failure js_error

definition price_try :: "axios_result \<Rightarrow> js_error + number" where
  "price_try r =
     (case r of
        Failure e \<Rightarrow> Inl e
      | Response d \<Rightarrow>
          if \<not> truthy d \<or> \<not> truthy (get_prop d ''ethereum'')
             \<or> \<not> truthy (get_prop (get_prop d ''ethereum'') ''usd'')
          then Inl (new_Error ''Invalid response format from price API'')
          else
            (case get_prop (get_prop d ''ethereum'') ''usd'' of
               JNum usdcEquivalent \<Rightarrow>
                 if num_le usdcEquivalent (to_double 0 1) \<or> \<not> isFinite usdcEquivalent
                 then Inl (new_Error ''Invalid ETH price received from API'')
                 else Inr usdcEquivalent
             | _ \<Rightarrow> Inl (new_Error ''Invalid ETH price received from API'')))"

definition price_catch :: "js_error \<Rightarrow> js_error" where
  "price_catch error =
     (if code error = Some ''ECONNABORTED'' then
        new_Error ''Price API request timed out. Please try again.''
      else if code error = Some ''ENOTFOUND'' \<or> code error = Some ''ECONNREFUSED'' then
        new_Error ''Unable to connect to price API. Please check your internet connection.''
      else
        case response_status error of
          Some status \<Rightarrow>
            if status = 429 then new_Error ''Price API rate limit exceeded. Please try again later.''
            else if 500 \<le> status then new_Error ''Price API server error. Please try again later.''
            else new_Error (''Price API error ('' @ int_to_string status
                              @ ''). Please try again later.'')
        | None \<Rightarrow>
            if str_includes (message error) ''Invalid'' then error
            else new_Error ''Failed to fetch ETH price. Please try again later.'')"

definition getEthUsdPrice :: "axios_result \<Rightarrow> js_error + number" where
  "getEthUsdPrice r = (case price_try r of Inl error \<Rightarrow> Inl (price_catch error) | Inr p \<Rightarrow> Inr p)"

section \<open>estimator.js\<close>

record EstimationResult =
  gasUnits :: number
  gasPriceWei :: int
  totalWei :: int
  gasText :: string
  totalText :: string

record feeData =
  maxFeePerGas :: "int option"
  gasPrice :: "int option"

text \<open>
  The remote node behind a provider: what \<open>getFeeData\<close> settles to, and what
  \<open>estimateGas\<close> settles to for a transaction to an address with a value. The library:
  \<open>parseEther\<close> (the amount in wei, or \<open>None\<close> where it throws), the provider an endpoint
  gives, and the hash of the address checksum.
\<close>

record provider =
  getFeeData :: "js_error + feeData"
  estimateGas :: "string \<Rightarrow> int \<Rightarrow> js_error + int"

record ethers =
  parseEther :: "string \<Rightarrow> int option"
  JsonRpcProvider :: "jsval \<Rightarrow> provider"
  keccak256 :: "string \<Rightarrow> nat list"

text \<open>\<open>/^0x[a-fA-F0-9]{40}$/\<close>\<close>

definition address_shaped :: "string \<Rightarrow> bool" where
  "address_shaped s = (length s = 42 \<and> starts_with s ''0x'' \<and> list_all is_hex (drop 2 s))"

text \<open>\<open>a || b\<close> on fee values that are a bigint or \<open>null\<close>: \<open>0n\<close> and \<open>null\<close> are falsy.\<close>

definition or_else :: "int option \<Rightarrow> int option \<Rightarrow> int option" where
  "or_else a b = (case a of Some x \<Rightarrow> if x \<noteq> 0 then Some x else b | None \<Rightarrow> b)"

definition estimate_try :: "ethers \<Rightarrow> jsval \<Rightarrow> string \<Rightarrow> jsval \<Rightarrow> js_error + EstimationResult" where
  "estimate_try l recipient valueEth url =
     (case recipient of
        JStr to_address \<Rightarrow>
          if to_address = [] then Inl (new_Error ''Invalid recipient address'')
          else if \<not> address_shaped to_address then Inl (new_Error ''Invalid recipient address'')
          else
            (case parseEther l valueEth of
               None \<Rightarrow> Inl (new_Error ''Invalid ETH value'')
             | Some weiValue \<Rightarrow>
                 if weiValue < 0 then Inl (new_Error ''ETH value cannot be negative'')
                 else
                   (case getFeeData (JsonRpcProvider l url) of
                      Inl e \<Rightarrow> Inl e
                    | Inr fees \<Rightarrow>
                        (case estimateGas (JsonRpcProvider l url) to_address weiValue of
                           Inl e \<Rightarrow> Inl e
                         | Inr gasLimit \<Rightarrow>
                             (case or_else (maxFeePerGas fees) (gasPrice fees) of
                                None \<Rightarrow> Inl (new_Error ''Unable to fetch gas price from network'')
                              | Some price \<Rightarrow>
                                  if price = 0 then
                                    Inl (new_Error ''Unable to fetch gas price from network'')
                                  else
                                    (case formatGweiFromWei (of_bigint price) of
                                       Inl e \<Rightarrow> Inl e
                                     | Inr gwei \<Rightarrow>
                                         (case formatEthFromWei (of_bigint (gasLimit * price)) of
                                            Inl e \<Rightarrow> Inl e
                                          | Inr eth \<Rightarrow>
                                              Inr \<lparr>gasUnits = to_double gasLimit 1,
                                                   gasPriceWei = price,
                                                   totalWei = gasLimit * price,
                                                   gasText = gwei @ '' Gwei ('' @ int_to_string price
                                                               @ '' wei)'',
                                                   totalText = eth\<rparr>))))))
      | _ \<Rightarrow> Inl (new_Error ''Invalid recipient address''))"

definition estimate_catch :: "js_error \<Rightarrow> js_error" where
  "estimate_catch error =
     (if str_includes (message error) ''insufficient funds'' then
        new_Error ''Insufficient funds for gas estimation''
      else if str_includes (message error) ''invalid address'' then
        new_Error ''Invalid recipient address''
      else if str_includes (message error) ''network'' then
        new_Error ''Network connection failed. Please check your internet connection.''
      else if code error = Some ''NETWORK_ERROR'' then
        new_Error ''Unable to connect to Base network. Please try again later.''
      else error)"

definition estimateEthTransfer :: "ethers \<Rightarrow> jsval \<Rightarrow> string \<Rightarrow> jsval \<Rightarrow> js_error + EstimationResult" where
  "estimateEthTransfer l recipient valueEth url =
     (case estimate_try l recipient valueEth url of
        Inl error \<Rightarrow> Inl (estimate_catch error)
      | Inr result \<Rightarrow> Inr result)"

section \<open>cli.js\<close>

text \<open>
  \<open>Number.prototype.toLocaleString\<close> in the \<open>en-US\<close> locale of the README's sample
  output. The digits it starts from are those of \<open>Number::toString\<close>: the shortest
  decimal that reads back as the Number, so that \<open>2 ^ 64\<close> is printed as
  \<open>18,446,744,073,709,552,000\<close>. A finite Number \<open>a * 2 ^ e\<close> is the fraction
  \<open>X / 10 ^ j\<close> with \<open>j = 0\<close> for \<open>0 \<le> e\<close> and, once the common factors 2 are
  cancelled, \<open>X = a * 5 ^ j\<close>, \<open>j = - e\<close> otherwise; the search runs over the leading
  digits of \<open>X\<close> as in \<open>shortest_decimal\<close>, and it ends with all of them at the
  latest.
\<close>

function decimal_fraction :: "int \<Rightarrow> int \<Rightarrow> int \<times> nat" where
  "decimal_fraction a e =
     (if 0 \<le> e then (a * 2 ^ nat e, 0)
      else if even a \<and> a \<noteq> 0 then decimal_fraction (a div 2) (e + 1)
      else (a * 5 ^ nat (- e), nat (- e)))"
  by pat_completeness auto
termination
  by (relation "measure (\<lambda>(a, e). nat (- e))") auto

declare decimal_fraction.simps [simp del]

function shortest_fraction :: "nat \<Rightarrow> nat \<Rightarrow> int \<Rightarrow> int \<Rightarrow> int" where
  "shortest_fraction k n0 X q =
     (if n0 \<le> k then X
      else
        let sc = 10 ^ (n0 - k);
            lo = (X div sc) * sc;
            hi = lo + sc;
            rlo = (to_double lo q = to_double X q);
            rhi = (to_double hi q = to_double X q)
        in if rlo \<and> rhi then
             (if X - lo < hi - X then lo else if hi - X < X - lo then hi
              else if even (X div sc) then lo else hi)
           else if rlo then lo
           else if rhi then hi
           else shortest_fraction (Suc k) n0 X q)"
  by pat_completeness auto
termination
  by (relation "measure (\<lambda>(k, n0, X, q). n0 - k)") auto

declare shortest_fraction.simps [simp del]

text \<open>
  That decimal is rounded to thousandths (away from zero at a tie); the integer digits
  are written in groups of three and the fraction without its trailing zeros.
\<close>

fun group_rev :: "string \<Rightarrow> string" where
  "group_rev (a # b # c # d # r) = a # b # c # CHR '','' # group_rev (d # r)"
| "group_rev r = r"

definition group_thousands :: "string \<Rightarrow> string" where
  "group_thousands ds = rev (group_rev (rev ds))"

definition toLocaleString :: "number \<Rightarrow> string" where
  "toLocaleString x =
     (case x of
        NaN \<Rightarrow> ''NaN''
      | PosInf \<Rightarrow> [CHR 0xE2, CHR 0x88, CHR 0x9E]
      | NegInf \<Rightarrow> [CHR ''-'', CHR 0xE2, CHR 0x88, CHR 0x9E]
      | Fin m e \<Rightarrow>
          let (X, j) = decimal_fraction \<bar>m\<bar> e;
              v = shortest_fraction 1 (length (digits_of X)) X (10 ^ j);
              n = (if j \<le> 3 then v * 10 ^ (3 - j)
                   else (2 * v + 10 ^ (j - 3)) div (2 * 10 ^ (j - 3)));
              frac = rev (dropWhile (\<lambda>c. c = CHR ''0'') (rev (drop 1 (digits_of (1000 + n mod 1000)))))
          in (if m < 0 then ''-'' else []) @ group_thousands (digits_of (n div 1000))
             @ (if frac = [] then [] else CHR ''.'' # frac))"

definition displayResults :: "EstimationResult \<Rightarrow> number \<Rightarrow> string list" where
  "displayResults estimation ethPrice =
     (let totalUsdc = toFixed 6 (num_mult (parseFloat (totalText estimation)) ethPrice)
      in [''Gas Units: '' @ toLocaleString (gasUnits estimation),
          ''Gas Price: '' @ gasText estimation,
          ''Total Cost: '' @ totalText estimation @ '' ETH (~'' @ totalUsdc @ '' USDC)''])"

text \<open>
  The command-line options as \<open>commander\<close> hands them over (strings), what the process
  leaves behind (the lines on standard output and standard error, and the exit code),
  and the world the command runs in: the library and the remote nodes, what the price
  request settles to, and which of the two requests settles first.
\<close>

record options =
  opt_to :: string
  opt_value :: string
  opt_network :: string

record outcome =
  stdout :: "string list"
  stderr :: "string list"
  exit_code :: int

record world =
  lib :: ethers
  price_api :: axios_result
  price_settles_first :: bool

definition exit_with_error :: "string list \<Rightarrow> outcome" where
  "exit_with_error lines = \<lparr>stdout = [], stderr = lines, exit_code = 1\<rparr>"

text \<open>
  \<open>Promise.all\<close> rejects with the rejection that comes first, and resolves once both
  promises have resolved.
\<close>

definition promise_all ::
  "bool \<Rightarrow> js_error + number \<Rightarrow> js_error + EstimationResult \<Rightarrow> js_error + number \<times> EstimationResult"
where
  "promise_all first_wins a b =
     (case a of
        Inl ea \<Rightarrow> (case b of Inl eb \<Rightarrow> Inl (if first_wins then ea else eb) | Inr y \<Rightarrow> Inl ea)
      | Inr x \<Rightarrow> (case b of Inl eb \<Rightarrow> Inl eb | Inr y \<Rightarrow> Inr (x, y)))"

definition handleTransfer :: "world \<Rightarrow> options \<Rightarrow> outcome" where
  "handleTransfer w opts =
     (if \<not> isValidAddress (keccak256 (lib w)) (JStr (opt_to opts)) then
        exit_with_error [''Error: Invalid recipient address'',
                         ''Please provide a valid Ethereum address (0x... format)'']
      else if \<not> isPositiveNumber (JStr (opt_value opts)) then
        exit_with_error [''Error: Invalid ETH value'',
                         ''Please provide a positive number (e.g., 0.1, 1.5)'']
      else if opt_network opts \<notin> set [''base'', ''base-sepolia''] then
        exit_with_error [''Error: Invalid network '' @ [CHR 0x22] @ opt_network opts @ [CHR 0x22],
                         ''Supported networks: '' @ join '', '' [''base'', ''base-sepolia'']]
      else
        case getRpcUrl (opt_network opts) of
          Inl error \<Rightarrow> exit_with_error [''Error: '' @ message error]
        | Inr url \<Rightarrow>
            (case promise_all (price_settles_first w) (getEthUsdPrice (price_api w))
                    (estimateEthTransfer (lib w) (JStr (opt_to opts)) (opt_value opts) url) of
               Inl error \<Rightarrow> exit_with_error [''Error: '' @ message error]
             | Inr (ethPrice, estimation) \<Rightarrow>
                 \<lparr>stdout = displayResults estimation ethPrice, stderr = [], exit_code = 0\<rparr>))"

section \<open>Example inputs\<close>

text \<open>
  A run of the command used below: the all-lower-case address of the test suite, the
  value \<open>0.1\<close>, the default network; a node that quotes a fee and estimates 21000 units
  of gas; a price API that answers 3450.25. The address has no upper-case letter, so
  its checksum is never looked at and the hash can be any function.
\<close>

definition example_options :: options where
  "example_options =
     \<lparr>opt_to = ''0x000000000000000000000000000000000000dead'', opt_value = ''0.1'',
      opt_network = ''base''\<rparr>"

definition example_fees :: feeData where
  "example_fees = \<lparr>maxFeePerGas = Some 1897000, gasPrice = Some 1000000\<rparr>"

definition example_node :: provider where
  "example_node = \<lparr>getFeeData = Inr example_fees, estimateGas = (\<lambda>a v. Inr 21000)\<rparr>"

definition example_lib :: ethers where
  "example_lib =
     \<lparr>parseEther = (\<lambda>s. if s = ''0.1'' then Some (10 ^ 17) else None),
      JsonRpcProvider = (\<lambda>url. example_node),
      keccak256 = (\<lambda>s. replicate 64 0)\<rparr>"

definition example_world :: world where
  "example_world =
     \<lparr>lib = example_lib,
      price_api = Response (JObj [(''ethereum'', JObj [(''usd'', JNum (to_double 345025 100))])]),
      price_settles_first = True\<rparr>"

text \<open>The same run with a price request that times out.\<close>

definition timeout_error :: js_error where
  "timeout_error =
     \<lparr>message = ''timeout of 5000ms exceeded'', code = Some ''ECONNABORTED'', response_status = None\<rparr>"

definition price_timeout_world :: world where
  "price_timeout_world = example_world\<lparr>price_api := Failure timeout_error\<rparr>"

text \<open>A node whose \<open>eth_estimateGas\<close> call fails, and one that estimates \<open>2 ^ 53 + 1\<close> units.\<close>

definition estimate_error :: js_error where
  "estimate_error =
     \<lparr>message = ''missing revert data'', code = Some ''CALL_EXCEPTION'', response_status = None\<rparr>"

definition failing_estimate_lib :: ethers where
  "failing_estimate_lib =
     example_lib\<lparr>JsonRpcProvider := (\<lambda>url. example_node\<lparr>estimateGas := (\<lambda>a v. Inl estimate_error)\<rparr>)\<rparr>"

definition huge_estimate_lib :: ethers where
  "huge_estimate_lib =
     example_lib\<lparr>JsonRpcProvider := (\<lambda>url. example_node\<lparr>estimateGas := (\<lambda>a v. Inr (2 ^ 53 + 1))\<rparr>)\<rparr>"

text \<open>
  A stand-in for the hash with which a mixed-case address can be tried: its digits are
  8 at the even positions and 0 at the odd ones.
\<close>

definition alternating_hash :: "string \<Rightarrow> nat list" where
  "alternating_hash s = concat (replicate 32 [8, 0])"

section \<open>Rendering, in the words of the specification\<close>

text \<open>
  To render a quotient \<open>p / q\<close> with up to \<open>f\<close> decimal places: take the number \<open>n\<close>
  of units of \<open>10 ^ - f\<close> nearest to it (the larger one if two are equally near),
  write the integer part \<open>n div 10 ^ f\<close>, and after it the \<open>f\<close> digits of the
  fractional part \<open>n mod 10 ^ f\<close> without their trailing zeros, behind a decimal
  point unless none of them is left.
\<close>

definition nearest_units :: "nat \<Rightarrow> int \<Rightarrow> int \<Rightarrow> int" where
  "nearest_units f p q = (2 * (p * 10 ^ f) + q) div (2 * q)"

fun frac_digits :: "nat \<Rightarrow> int \<Rightarrow> string" where
  "frac_digits 0 r = []"
| "frac_digits (Suc f) r = frac_digits f (r div 10) @ [digit_char (r mod 10)]"

definition strip_trailing_zeros :: "string \<Rightarrow> string" where
  "strip_trailing_zeros s = rev (dropWhile (\<lambda>c. c = CHR ''0'') (rev s))"

definition render_decimal :: "nat \<Rightarrow> int \<Rightarrow> string" where
  "render_decimal f n =
     (let frac = strip_trailing_zeros (frac_digits f (n mod 10 ^ f))
      in digits_of (n div 10 ^ f) @ (if frac = [] then [] else CHR ''.'' # frac))"

definition render_quotient :: "nat \<Rightarrow> int \<Rightarrow> int \<Rightarrow> string" where
  "render_quotient f p q = render_decimal f (nearest_units f p q)"

text \<open>
  The rendering of a finite Number that is not negative: of the quotient
  \<open>m * 2 ^ e / 1\<close> or \<open>m / 2 ^ - e\<close> it denotes.
\<close>

definition render_up_to :: "nat \<Rightarrow> number \<Rightarrow> string" where
  "render_up_to f x =
     (case x of
        Fin m e \<Rightarrow>
          if 0 \<le> e then render_quotient f (m * 2 ^ nat e) 1
          else render_quotient f m (2 ^ nat (- e))
      | _ \<Rightarrow> [])"

section \<open>Auxiliary notions\<close>

text \<open>
  The binade exponent and the rounded significand that \<open>to_double\<close> computes for a
  positive fraction, named for the proofs.
\<close>

definition dbl_E :: "int \<Rightarrow> int \<Rightarrow> int" where
  "dbl_E p q = max (floor_log2 p q) (- 1022)"

definition dbl_n :: "int \<Rightarrow> int \<Rightarrow> int" where
  "dbl_n p q =
     (if 0 \<le> 52 - dbl_E p q then round_half_even (p * 2 ^ nat (52 - dbl_E p q)) q
      else round_half_even p (q * 2 ^ nat (- (52 - dbl_E p q))))"


text \<open>The result of the example estimate.\<close>

definition example_result :: EstimationResult where
  "example_result =
     \<lparr>gasUnits = Fin 5772436045824000 (- 38), gasPriceWei = 1897000, totalWei = 39837000000,
      gasText = ''0.001897 Gwei (1897000 wei)'', totalText = ''0.00000004''\<rparr>"

text \<open>The digits of \<open>n\<close> as \<open>toFixed\<close> pads them, before the point is put in.\<close>

definition padded :: "nat \<Rightarrow> int \<Rightarrow> string" where
  "padded f n =
     (if f \<noteq> 0 \<and> length (digits_of n) \<le> f
      then replicate (f + 1 - length (digits_of n)) CHR ''0'' @ digits_of n else digits_of n)"

section \<open>Properties\<close>

subsection \<open>Trimming\<close>

lemma trim_examples:
  "trimDecimals (JStr ''1.000'') = JStr ''1''"
  "trimDecimals (JStr ''1.500'') = JStr ''1.5''"
  by (simp_all add: zeros_to_end_def)

text \<open>
  C4. \<open>trimDecimals\<close> is to remove trailing zeros next to a decimal point, and the
  point when no fractional digit remains, and to leave everything else alone, so that
  a string without a decimal point keeps all its digits. The regular expression makes
  the point optional, and the zeros at the end of an integer go as well: \<open>100\<close>
  becomes \<open>1\<close>.
\<close>

theorem trimDecimals_integer_loses_digits:
  "trimDecimals (JStr ''100'') = JStr ''1''"
  by code_simp

text \<open>
  C5. \<open>trimDecimals\<close> is to be idempotent, and to leave the result of
  \<open>formatEthFromWei\<close> as it is. Once the fraction of \<open>10.0\<close> is gone, a second pass
  takes the zero of \<open>10\<close>; the amount \<open>0\<close> is formatted as \<open>0\<close>, which trimming
  empties, and ten ether (\<open>10 ^ 19\<close> wei) as \<open>10\<close>, which trimming turns into \<open>1\<close>.
\<close>

theorem trimDecimals_not_idempotent:
  "trimDecimals (JStr ''10.0'') = JStr ''10''
   \<and> trimDecimals (trimDecimals (JStr ''10.0'')) = JStr ''1''
   \<and> formatEthFromWei (Numeric 0) = Inr ''0''
   \<and> trimDecimals (JStr ''0'') = JStr []
   \<and> formatEthFromWei (Numeric (10 ^ 19)) = Inr ''10''
   \<and> trimDecimals (JStr ''10'') = JStr ''1''"
  by code_simp

subsection \<open>The network table\<close>

lemma getRpcUrl_table:
  "getRpcUrl ''base'' = Inr (JStr ''https://mainnet.base.org'')"
  "getRpcUrl ''base-sepolia'' = Inr (JStr ''https://sepolia.base.org'')"
  "map_option chainId (map_of NETWORK_CONFIG ''base'') = Some 8453"
  "getRpcUrl ''unknown''
     = Inl (new_Error ''Unsupported network: unknown. Supported networks: base, base-sepolia'')"
  by code_simp+

lemma getRpcUrl_fails_iff:
  "(\<exists>e. getRpcUrl network = Inl e)
     \<longleftrightarrow> network \<notin> set (map fst NETWORK_CONFIG) \<and> network \<notin> set Object_prototype_keys"
  by (auto simp: getRpcUrl_def get_property_def NETWORK_CONFIG_def split: option.splits)

text \<open>
  C10. The resolver is to look the identifier up by exact match in the table of two
  entries and to fail, naming the supported identifiers, for every other identifier.
  The lookup is a property access on an object literal, so the name of an inherited
  member such as \<open>constructor\<close> is found too: \<open>getRpcUrl\<close> then returns \<open>undefined\<close>
  instead of throwing.
\<close>

theorem getRpcUrl_inherited_member:
  "getRpcUrl ''constructor'' = Inr JUndefined"
  by code_simp

subsection \<open>A failing gas estimate\<close>

lemma estimateGas_failure_is_fatal:
  assumes "parseEther l valueEth = Some weiValue"
    and "estimateGas (JsonRpcProvider l url) to_address weiValue = Inl e"
  shows "\<exists>e'. estimateEthTransfer l (JStr to_address) valueEth url = Inl e'"
  using assms
  by (simp add: estimateEthTransfer_def estimate_try_def split: sum.splits)

text \<open>
  C2. When the remote gas estimate fails, the estimator is to fall back to 21000 units
  and return a result. The code has no fallback: the error of \<open>estimateGas\<close> leaves the
  \<open>try\<close> block, and the \<open>catch\<close> block throws it again.
\<close>

theorem estimateEthTransfer_no_fallback:
  "parseEther failing_estimate_lib ''0.1'' = Some (10 ^ 17)
   \<and> getFeeData (JsonRpcProvider failing_estimate_lib (JStr ''https://mainnet.base.org''))
       = Inr example_fees
   \<and> estimateGas (JsonRpcProvider failing_estimate_lib (JStr ''https://mainnet.base.org''))
         ''0x000000000000000000000000000000000000dead'' (10 ^ 17) = Inl estimate_error
   \<and> estimateEthTransfer failing_estimate_lib (JStr ''0x000000000000000000000000000000000000dead'')
         ''0.1'' (JStr ''https://mainnet.base.org'') = Inl estimate_error"
  by code_simp

subsection \<open>A failing price request\<close>

lemma getEthUsdPrice_rejection: "getEthUsdPrice (Failure e) = Inl (price_catch e)"
  by (simp add: getEthUsdPrice_def price_try_def)

lemma price_failure_is_fatal:
  assumes "getEthUsdPrice (price_api w) = Inl e"
  shows "exit_code (handleTransfer w opts) = 1 \<and> stdout (handleTransfer w opts) = []"
  using assms
  by (simp add: handleTransfer_def promise_all_def exit_with_error_def split: sum.splits)

text \<open>
  C1. When the estimate succeeds and the price request fails, the command is to print
  the gas cost in ETH with \<open>N/A\<close> for the USDC figure and to end with exit code 0. The
  two requests are joined by \<open>Promise.all\<close>, which rejects as soon as the price
  request does: the command prints the error message and exits with code 1, and
  nothing reaches standard output.
\<close>

theorem handleTransfer_price_failure_exits_1:
  "estimateEthTransfer (lib price_timeout_world) (JStr (opt_to example_options))
       (opt_value example_options) (JStr ''https://mainnet.base.org'') = Inr example_result
   \<and> getEthUsdPrice (price_api price_timeout_world)
       = Inl (new_Error ''Price API request timed out. Please try again.'')
   \<and> handleTransfer price_timeout_world example_options =
       \<lparr>stdout = [], stderr = [''Error: Price API request timed out. Please try again.''],
        exit_code = 1\<rparr>"
  by code_simp

lemma handleTransfer_example:
  "handleTransfer example_world example_options =
     \<lparr>stdout = [''Gas Units: 21,000'', ''Gas Price: 0.001897 Gwei (1897000 wei)'',
                ''Total Cost: 0.00000004 ETH (~0.000138 USDC)''],
      stderr = [], exit_code = 0\<rparr>"
  by code_simp

subsection \<open>Validators\<close>

lemma num_gt_zero: "num_gt (Fin m e) (to_double 0 1) \<longleftrightarrow> 0 < m"
proof -
  have "m * 2 ^ nat (e - min (- 1074) e) > 0 \<longleftrightarrow> 0 < m"
    by (simp add: zero_less_mult_iff)
  then show ?thesis
    by (simp add: num_gt_def to_double_def Let_def)
qed

lemma isPositiveNumber_iff:
  "isPositiveNumber v \<longleftrightarrow>
     (is_string v \<or> is_number v) \<and> (\<exists>m e. parseFloat_arg v = Fin m e \<and> 0 < m)"
proof (cases "parseFloat_arg v")
  case (Fin m e)
  then show ?thesis by (simp add: isPositiveNumber_def Let_def num_gt_zero)
qed (simp_all add: isPositiveNumber_def Let_def)

lemma round_half_even_nonneg: "0 \<le> n \<Longrightarrow> 0 < d \<Longrightarrow> 0 \<le> round_half_even n d"
  by (auto simp: round_half_even_def Let_def pos_imp_zdiv_nonneg_iff)

lemma to_double_sign:
  assumes "to_double p q = Fin m e" and "0 < q" and "0 < m"
  shows "0 < p"
proof (rule ccontr)
  assume "\<not> 0 < p"
  then consider "p = 0" | "p < 0" by linarith
  then show False
  proof cases
    case 1
    with assms show False by (simp add: to_double_def)
  next
    case 2
    define E where "E = max (floor_log2 \<bar>p\<bar> q) (- 1022)"
    define n where "n = (if 0 \<le> 52 - E then round_half_even (\<bar>p\<bar> * 2 ^ nat (52 - E)) q
                 else round_half_even \<bar>p\<bar> (q * 2 ^ nat (- (52 - E))))"
    have "0 \<le> n" using assms(2) by (simp add: n_def round_half_even_nonneg)
    moreover have "m = - (if n = 2 ^ 53 then 2 ^ 52 else n)"
      using assms(1) 2 by (simp add: to_double_def Let_def E_def n_def split: if_splits)
    ultimately show False using assms(3) by (simp split: if_splits)
  qed
qed


lemma foldl_digits_nonneg:
  "0 \<le> acc \<Longrightarrow> 0 \<le> foldl (\<lambda>acc c. 10 * acc + digit_val c) acc ds"
  by (induction ds arbitrary: acc) (simp_all add: digit_val_def)

lemma digits_val_nonneg: "0 \<le> digits_val ds"
  by (simp add: digits_val_def foldl_digits_nonneg)

lemma parse_unsigned_neg:
  assumes "parse_unsigned True t = Fin m e"
  shows "m \<le> 0"
proof (rule ccontr)
  assume "\<not> m \<le> 0"
  then have m: "0 < m" by simp
  define ds1 where "ds1 = takeWhile is_digit t"
  define r1 where "r1 = dropWhile is_digit t"
  define ds2 where "ds2 = (if starts_with r1 ''.'' then takeWhile is_digit (tl r1) else [])"
  define r2 where "r2 = (if starts_with r1 ''.'' then dropWhile is_digit (tl r1) else r1)"
  define k where "k = exponent_part r2 - int (length ds2)"
  define p where "p = - digits_val (ds1 @ ds2)"
  have p: "p \<le> 0" by (simp add: p_def digits_val_nonneg)
  from assms have "(if 0 \<le> k then to_double (p * 10 ^ nat k) 1 else to_double p (10 ^ nat (- k))) = Fin m e"
    by (simp add: parse_unsigned_def Let_def ds1_def r1_def ds2_def r2_def k_def p_def
             split: if_splits)
  then consider "to_double (p * 10 ^ nat k) 1 = Fin m e" | "to_double p (10 ^ nat (- k)) = Fin m e"
    by (auto split: if_splits)
  then show False
  proof cases
    case 1
    from to_double_sign[OF 1 _ m] have "0 < p * 10 ^ nat k" by simp
    with p show False by (simp add: zero_less_mult_iff)
  next
    case 2
    from to_double_sign[OF 2 _ m] have "0 < p" by simp
    with p show False by simp
  qed
qed

lemma neg_not_positive:
  assumes "starts_with (dropWhile is_space s) ''-''"
  shows "\<not> isPositiveNumber (JStr s)"
proof
  assume "isPositiveNumber (JStr s)"
  then obtain m e where pf: "parseFloat s = Fin m e" and m: "0 < m"
    by (auto simp: isPositiveNumber_iff)
  from pf assms have pu: "parse_unsigned True (tl (dropWhile is_space s)) = Fin m e"
    by (simp add: parseFloat_def Let_def)
  from parse_unsigned_neg[OF pu] m show False by simp
qed

lemma not_numeric_not_positive:
  assumes "dropWhile is_space s = c # r"
    and "\<not> is_digit c" and "c \<noteq> CHR ''+''" and "c \<noteq> CHR ''-''" and "c \<noteq> CHR ''.''"
  shows "\<not> isPositiveNumber (JStr s)"
proof -
  have "parse_unsigned False (c # r) = PosInf \<or> parse_unsigned False (c # r) = NaN"
    using assms(2,5) by (simp add: parse_unsigned_def Let_def starts_with_def)
  moreover have "parseFloat s = parse_unsigned False (c # r)"
    using assms(1,3,4) by (simp add: parseFloat_def Let_def starts_with_def)
  ultimately show ?thesis
    by (auto simp: isPositiveNumber_iff)
qed

lemma isPositiveNumber_examples: "isPositiveNumber (JStr ''0.1'') \<and> isPositiveNumber (JStr ''1.5'')
       \<and> \<not> isPositiveNumber (JStr ''-1'') \<and> \<not> isPositiveNumber (JStr ''abc'')
       \<and> \<not> isPositiveNumber (JStr []) \<and> \<not> isPositiveNumber (JStr ''0'')"
  by code_simp

lemma pow2_pos: "0 < pow2 e"
  by (simp add: pow2_def)

lemma value_of_pos_iff: "0 < rat_of_int m * pow2 e \<longleftrightarrow> 0 < m"
  using pow2_pos[of e] by (auto simp: zero_less_mult_iff dest: less_asym)

text \<open>
  What \<open>isPositiveNumber\<close> decides: the argument is a string or a Number and
  \<open>parseFloat\<close> reads a finite number above zero from it. A string whose first
  character after the white space is a minus sign, or is none of a digit, a sign and a
  point, gives false.
\<close>

lemma isPositiveNumber_reads_prefix:
  "(isPositiveNumber v \<longleftrightarrow>
      (is_string v \<or> is_number v) \<and> isFinite (parseFloat_arg v) \<and> 0 < value_of (parseFloat_arg v))
   \<and> (starts_with (dropWhile is_space s) ''-'' \<longrightarrow> \<not> isPositiveNumber (JStr s))
   \<and> (dropWhile is_space t = c # r \<and> \<not> is_digit c \<and> c \<notin> set ''+-.'' \<longrightarrow> \<not> isPositiveNumber (JStr t))
   \<and> isPositiveNumber (JStr ''0.1'') \<and> isPositiveNumber (JStr ''1.5'')
   \<and> \<not> isPositiveNumber (JStr ''-1'') \<and> \<not> isPositiveNumber (JStr ''abc'')
   \<and> \<not> isPositiveNumber (JStr []) \<and> \<not> isPositiveNumber (JStr ''0'')"
proof -
  have "isPositiveNumber v \<longleftrightarrow>
      (is_string v \<or> is_number v) \<and> isFinite (parseFloat_arg v) \<and> 0 < value_of (parseFloat_arg v)"
    by (cases "parseFloat_arg v") (simp_all add: isPositiveNumber_iff value_of_pos_iff)
  moreover have "starts_with (dropWhile is_space s) ''-'' \<longrightarrow> \<not> isPositiveNumber (JStr s)"
    using neg_not_positive by blast
  moreover have "dropWhile is_space t = c # r \<and> \<not> is_digit c \<and> c \<notin> set ''+-.''
      \<longrightarrow> \<not> isPositiveNumber (JStr t)"
    using not_numeric_not_positive[of t c r] by simp
  ultimately show ?thesis using isPositiveNumber_examples by blast
qed

text \<open>
  C8. \<open>isPositiveNumber\<close> is to be true only for a value that parses as a finite
  decimal number above zero, and false for text that is not numeric. The code reads the
  number with \<open>parseFloat\<close>, which takes the longest numeric prefix and ignores what
  follows it: \<open>1abc\<close>, \<open>12px\<close> and \<open>0.1 ETH\<close> are accepted, although none of them
  represents a number.
\<close>

theorem isPositiveNumber_accepts_trailing_text:
  "isPositiveNumber (JStr ''1abc'') \<and> isPositiveNumber (JStr ''12px'')
   \<and> isPositiveNumber (JStr ''0.1 ETH'')"
  by code_simp

text \<open>
  The command passes such a value on to the estimator, where \<open>ethers.parseEther\<close>
  refuses it: the run ends with the estimator's message and without the hint of the
  validation.
\<close>

lemma handleTransfer_trailing_text:
  "parseEther (lib example_world) ''1abc'' = None
   \<and> handleTransfer example_world (example_options\<lparr>opt_value := ''1abc''\<rparr>)
       = \<lparr>stdout = [], stderr = [''Error: Invalid ETH value''], exit_code = 1\<rparr>"
  by code_simp

text \<open>
  C9. \<open>isValidAddress\<close> is true only for a string of 42 characters that begins with
  \<open>0x\<close>, continues with 40 hexadecimal digits and, if these use both cases, has the
  casing of the checksum; a string of that shape in a single case is accepted without
  a look at the checksum; an argument that is not a string gives false.
\<close>

theorem isValidAddress_spec:
  "(isValidAddress k v \<longrightarrow>
      (\<exists>s. v = JStr s \<and> length s = 42 \<and> starts_with s ''0x'' \<and> list_all is_hex (drop 2 s)
           \<and> (mixed_case (drop 2 s) \<longrightarrow> drop 2 s = checksum_case k (drop 2 s))))
   \<and> (length a = 42 \<and> starts_with a ''0x'' \<and> list_all is_hex (drop 2 a) \<and> \<not> mixed_case (drop 2 a)
        \<longrightarrow> isValidAddress k (JStr a))
   \<and> (\<not> is_string u \<longrightarrow> \<not> isValidAddress k u)"
proof -
  have "isValidAddress k v \<longrightarrow>
      (\<exists>s. v = JStr s \<and> length s = 42 \<and> starts_with s ''0x'' \<and> list_all is_hex (drop 2 s)
           \<and> (mixed_case (drop 2 s) \<longrightarrow> drop 2 s = checksum_case k (drop 2 s)))"
    by (cases v) (auto simp: isAddress_def split: if_splits)
  moreover have "length a = 42 \<and> starts_with a ''0x'' \<and> list_all is_hex (drop 2 a) \<and> \<not> mixed_case (drop 2 a)
        \<longrightarrow> isValidAddress k (JStr a)"
    by (simp add: isAddress_def)
  moreover have "\<not> is_string u \<longrightarrow> \<not> isValidAddress k u"
    by (cases u) simp_all
  ultimately show ?thesis by blast
qed

theorem isValidAddress_spec_witness:
  "isValidAddress alternating_hash (JStr ''0xAbCdEf0123456789AbCdEf0123456789AbCdEf01'')
   \<and> mixed_case (drop 2 ''0xAbCdEf0123456789AbCdEf0123456789AbCdEf01'')
   \<and> drop 2 ''0xAbCdEf0123456789AbCdEf0123456789AbCdEf01''
       = checksum_case alternating_hash (drop 2 ''0xAbCdEf0123456789AbCdEf0123456789AbCdEf01'')
   \<and> \<not> mixed_case (drop 2 ''0x000000000000000000000000000000000000dead'')
   \<and> isValidAddress alternating_hash (JStr ''0x000000000000000000000000000000000000dead'')
   \<and> \<not> is_string JNull \<and> \<not> isValidAddress alternating_hash JNull"
proof -
  have h1: "isValidAddress alternating_hash (JStr ''0xAbCdEf0123456789AbCdEf0123456789AbCdEf01'')"
    by code_simp
  have h2: "mixed_case (drop 2 ''0xAbCdEf0123456789AbCdEf0123456789AbCdEf01'')"
    by code_simp
  have h3: "length ''0x000000000000000000000000000000000000dead'' = 42
      \<and> starts_with ''0x000000000000000000000000000000000000dead'' ''0x''
      \<and> list_all is_hex (drop 2 ''0x000000000000000000000000000000000000dead'')
      \<and> \<not> mixed_case (drop 2 ''0x000000000000000000000000000000000000dead'')"
    by code_simp
  have h4: "\<not> is_string JNull" by simp
  from isValidAddress_spec[of alternating_hash "JStr ''0xAbCdEf0123456789AbCdEf0123456789AbCdEf01''"
      "''0x000000000000000000000000000000000000dead''" JNull] h1 h2 h3 h4
  show ?thesis by blast
qed

subsection \<open>Rounding to a Number\<close>

lemma pow2_nat: "pow2 (int n) = 2 ^ n"
  by (simp add: pow2_def)

lemma pow2_add: "pow2 (a + b) = pow2 a * pow2 b"
proof -
  have eq: "pow2 e = 2 powi e" for e
    by (simp add: pow2_def power_int_def field_simps)
  show ?thesis by (simp add: eq power_int_add)
qed

lemma pow2_mono: "a \<le> b \<Longrightarrow> pow2 a \<le> pow2 b"
proof -
  assume "a \<le> b"
  then obtain n where b: "b = a + int n" by (metis zle_iff_zadd)
  have "(1::rat) \<le> 2 ^ n" by simp
  then show ?thesis using pow2_pos[of a] by (simp add: b pow2_add pow2_nat)
qed

lemma pow2_strict_mono: "a < b \<Longrightarrow> pow2 a < pow2 b"
proof -
  assume "a < b"
  then have "pow2 (a + 1) \<le> pow2 b" by (simp add: pow2_mono)
  moreover have "pow2 1 = 2" by (simp add: pow2_def)
  then have "pow2 a < pow2 (a + 1)"
    using pow2_pos[of a] by (simp add: pow2_add)
  ultimately show ?thesis by simp
qed

lemma pow2_diff_nat: "k \<le> e \<Longrightarrow> (2::rat) ^ nat (e - k) = pow2 e / pow2 k"
proof -
  assume "k \<le> e"
  have "pow2 e = pow2 (int (nat (e - k)) + k)" using \<open>k \<le> e\<close> by simp
  also have "\<dots> = 2 ^ nat (e - k) * pow2 k" by (simp only: pow2_add pow2_nat)
  finally show ?thesis using pow2_pos[of k] by simp
qed

lemma scaled_value:
  assumes "k \<le> e"
  shows "rat_of_int (m * 2 ^ nat (e - k)) = of_int m * pow2 e / pow2 k"
  using pow2_diff_nat[OF assms] by simp

lemma num_le_Fin_iff:
  "num_le (Fin m1 e1) (Fin m2 e2) \<longleftrightarrow> rat_of_int m1 * pow2 e1 \<le> of_int m2 * pow2 e2"
proof -
  define k where "k = min e1 e2"
  have k: "k \<le> e1" "k \<le> e2" by (simp_all add: k_def)
  have "m1 * 2 ^ nat (e1 - k) \<le> m2 * 2 ^ nat (e2 - k)
      \<longleftrightarrow> rat_of_int (m1 * 2 ^ nat (e1 - k)) \<le> rat_of_int (m2 * 2 ^ nat (e2 - k))"
    by (simp only: of_int_le_iff)
  also have "\<dots> \<longleftrightarrow> of_int m1 * pow2 e1 / pow2 k \<le> of_int m2 * pow2 e2 / pow2 k"
    by (simp only: scaled_value[OF k(1)] scaled_value[OF k(2)])
  also have "\<dots> \<longleftrightarrow> rat_of_int m1 * pow2 e1 \<le> of_int m2 * pow2 e2"
    using pow2_pos[of k] by (simp add: divide_le_cancel)
  finally show ?thesis by (simp add: k_def Let_def)
qed

lemma num_less_Fin_iff:
  "num_less (Fin m1 e1) (Fin m2 e2) \<longleftrightarrow> rat_of_int m1 * pow2 e1 < of_int m2 * pow2 e2"
proof -
  define k where "k = min e1 e2"
  have k: "k \<le> e1" "k \<le> e2" by (simp_all add: k_def)
  have "m1 * 2 ^ nat (e1 - k) < m2 * 2 ^ nat (e2 - k)
      \<longleftrightarrow> rat_of_int (m1 * 2 ^ nat (e1 - k)) < rat_of_int (m2 * 2 ^ nat (e2 - k))"
    by (simp only: of_int_less_iff)
  also have "\<dots> \<longleftrightarrow> of_int m1 * pow2 e1 / pow2 k < of_int m2 * pow2 e2 / pow2 k"
    by (simp only: scaled_value[OF k(1)] scaled_value[OF k(2)])
  also have "\<dots> \<longleftrightarrow> rat_of_int m1 * pow2 e1 < of_int m2 * pow2 e2"
    using pow2_pos[of k] by (simp add: divide_less_cancel)
  finally show ?thesis by (simp add: k_def Let_def)
qed

lemma bitlen_bounds:
  "0 < n \<Longrightarrow> 2 ^ (bitlen n - 1) \<le> n \<and> n < 2 ^ bitlen n"
proof (induction n rule: bitlen.induct)
  case (1 n)
  show ?case
  proof (cases "n = 1")
    case True
    then show ?thesis by (simp add: bitlen.simps[of 1] bitlen.simps[of 0])
  next
    case False
    with "1.prems" have h: "0 < n div 2" by simp
    from "1.IH" "1.prems" h have IH: "2 ^ (bitlen (n div 2) - 1) \<le> n div 2" "n div 2 < 2 ^ bitlen (n div 2)"
      by simp_all
    have pos: "0 < bitlen (n div 2)" using h by (simp add: bitlen.simps[of "n div 2"])
    have bl: "bitlen n = Suc (bitlen (n div 2))" using "1.prems" by (simp add: bitlen.simps[of n])
    have "2 * 2 ^ (bitlen (n div 2) - 1) \<le> n" using IH(1) by linarith
    moreover have "2 * 2 ^ (bitlen (n div 2) - 1) = (2::int) ^ bitlen (n div 2)"
      using pos by (cases "bitlen (n div 2)") simp_all
    moreover have "n < 2 * 2 ^ bitlen (n div 2)" using IH(2) by linarith
    ultimately show ?thesis by (simp add: bl)
  qed
qed

lemma scale_le_iff:
  "(if 0 \<le> d then a * 2 ^ nat d \<le> b else a \<le> b * 2 ^ nat (- d))
     \<longleftrightarrow> rat_of_int a * pow2 d \<le> rat_of_int b"
proof (cases "0 \<le> d")
  case True
  have "a * 2 ^ nat d \<le> b \<longleftrightarrow> rat_of_int (a * 2 ^ nat d) \<le> rat_of_int b"
    by (simp only: of_int_le_iff)
  then show ?thesis using True by (simp add: pow2_def)
next
  case False
  have "a \<le> b * 2 ^ nat (- d) \<longleftrightarrow> rat_of_int a \<le> rat_of_int (b * 2 ^ nat (- d))"
    by (simp only: of_int_le_iff)
  then show ?thesis using False by (simp add: pow2_def field_simps)
qed

lemma floor_log2_bounds:
  assumes "0 < p" and "0 < q"
  shows "pow2 (floor_log2 p q) * rat_of_int q \<le> rat_of_int p"
    and "rat_of_int p < pow2 (floor_log2 p q + 1) * rat_of_int q"
proof -
  define bp where "bp = bitlen p"
  define bq where "bq = bitlen q"
  define d where "d = int bp - int bq"
  from bitlen_bounds[OF assms(1)] have p: "2 ^ (bp - 1) \<le> p" "p < 2 ^ bp" by (simp_all add: bp_def)
  from bitlen_bounds[OF assms(2)] have q: "2 ^ (bq - 1) \<le> q" "q < 2 ^ bq" by (simp_all add: bq_def)
  have bp1: "1 \<le> bp" using assms(1) by (simp add: bp_def bitlen.simps[of p])
  have bq1: "1 \<le> bq" using assms(2) by (simp add: bq_def bitlen.simps[of q])
  have rp: "pow2 (int bp - 1) \<le> rat_of_int p" "rat_of_int p < pow2 (int bp)"
  proof -
    have "pow2 (int bp - 1) = pow2 (int (bp - 1))" using bp1 by (simp add: of_nat_diff)
    also have "\<dots> = rat_of_int (2 ^ (bp - 1))" by (simp add: pow2_nat)
    finally show "pow2 (int bp - 1) \<le> rat_of_int p" using p(1) by (simp only: of_int_le_iff)
    have "rat_of_int p < rat_of_int (2 ^ bp)" using p(2) by (simp only: of_int_less_iff)
    then show "rat_of_int p < pow2 (int bp)" by (simp add: pow2_nat)
  qed
  have rq: "pow2 (int bq - 1) \<le> rat_of_int q" "rat_of_int q < pow2 (int bq)"
  proof -
    have "pow2 (int bq - 1) = pow2 (int (bq - 1))" using bq1 by (simp add: of_nat_diff)
    also have "\<dots> = rat_of_int (2 ^ (bq - 1))" by (simp add: pow2_nat)
    finally show "pow2 (int bq - 1) \<le> rat_of_int q" using q(1) by (simp only: of_int_le_iff)
    have "rat_of_int q < rat_of_int (2 ^ bq)" using q(2) by (simp only: of_int_less_iff)
    then show "rat_of_int q < pow2 (int bq)" by (simp add: pow2_nat)
  qed
  define C where "C \<longleftrightarrow> rat_of_int q * pow2 d \<le> rat_of_int p"
  have fl: "floor_log2 p q = (if C then d else d - 1)"
    unfolding floor_log2_def Let_def C_def d_def bp_def bq_def
    by (simp only: scale_le_iff)
  have up: "rat_of_int p < pow2 (d + 1) * rat_of_int q"
  proof -
    have "pow2 (int bp) = pow2 (d + 1) * pow2 (int bq - 1)"
      by (simp add: d_def flip: pow2_add)
    also have "\<dots> \<le> pow2 (d + 1) * rat_of_int q"
      using rq(1) pow2_pos[of "d + 1"] by simp
    finally show ?thesis using rp(2) by simp
  qed
  have lo: "pow2 (d - 1) * rat_of_int q \<le> rat_of_int p"
  proof -
    have "pow2 (d - 1) * rat_of_int q \<le> pow2 (d - 1) * pow2 (int bq)"
      using rq(2) pow2_pos[of "d - 1"] by simp
    also have "\<dots> = pow2 (int bp - 1)"
      by (simp add: d_def flip: pow2_add)
    finally show ?thesis using rp(1) by simp
  qed
  show "pow2 (floor_log2 p q) * rat_of_int q \<le> rat_of_int p"
    using lo by (simp add: fl C_def mult.commute)
  show "rat_of_int p < pow2 (floor_log2 p q + 1) * rat_of_int q"
    using up by (auto simp: fl C_def mult.commute not_le)
qed

lemma round_half_even_ge:
  assumes "0 < D" and "K * D \<le> N"
  shows "K \<le> round_half_even N D"
proof -
  have "K = (K * D) div D" using assms(1) by simp
  also have "\<dots> \<le> N div D" using assms by (intro zdiv_mono1) simp_all
  finally have "K \<le> N div D" .
  then show ?thesis by (simp add: round_half_even_def Let_def)
qed

lemma round_half_even_le:
  assumes "0 < D" and "N \<le> K * D"
  shows "round_half_even N D \<le> K"
proof -
  have "N div D \<le> (K * D) div D" using assms by (intro zdiv_mono1) simp_all
  then have qK: "N div D \<le> K" using assms(1) by simp
  show ?thesis
  proof (cases "N div D = K")
    case True
    have "N = D * (N div D) + N mod D" by simp
    with True assms(2) have "N mod D \<le> 0" by (simp add: mult.commute)
    moreover have "0 \<le> N mod D" using assms(1) by simp
    ultimately have "N mod D = 0" by simp
    then show ?thesis using True assms(1) by (simp add: round_half_even_def Let_def)
  next
    case False
    with qK have "N div D + 1 \<le> K" by simp
    then show ?thesis using qK by (simp add: round_half_even_def Let_def)
  qed
qed

lemma dbl_n_ge:
  assumes "0 < q" and "rat_of_int K * pow2 (dbl_E p q - 52) * rat_of_int q \<le> rat_of_int p"
  shows "K \<le> dbl_n p q"
proof (cases "0 \<le> 52 - dbl_E p q")
  case True
  have "pow2 (dbl_E p q - 52) * pow2 (52 - dbl_E p q) = 1" by (simp add: pow2_def flip: pow2_add)
  then have "rat_of_int (K * q) = rat_of_int K * pow2 (dbl_E p q - 52) * rat_of_int q * pow2 (52 - dbl_E p q)"
    by (simp add: mult.assoc mult.left_commute)
  also have "\<dots> \<le> rat_of_int p * pow2 (52 - dbl_E p q)"
    using assms(2) pow2_pos[of "52 - dbl_E p q"] by (simp only: mult_le_cancel_right) simp
  also have "\<dots> = rat_of_int (p * 2 ^ nat (52 - dbl_E p q))" using True by (simp add: pow2_def)
  finally have "K * q \<le> p * 2 ^ nat (52 - dbl_E p q)" by (simp only: of_int_le_iff)
  then show ?thesis using True assms(1) by (simp add: dbl_n_def round_half_even_ge)
next
  case False
  then have "pow2 (dbl_E p q - 52) = rat_of_int (2 ^ nat (- (52 - dbl_E p q)))"
    by (simp add: pow2_def)
  with assms(2) have "rat_of_int (K * (q * 2 ^ nat (- (52 - dbl_E p q)))) \<le> rat_of_int p"
    by (simp add: mult.assoc mult.left_commute mult.commute)
  then have "K * (q * 2 ^ nat (- (52 - dbl_E p q))) \<le> p" by (simp only: of_int_le_iff)
  then show ?thesis using False assms(1) by (simp add: dbl_n_def round_half_even_ge)
qed

lemma dbl_n_le:
  assumes "0 < q" and "rat_of_int p \<le> rat_of_int K * pow2 (dbl_E p q - 52) * rat_of_int q"
  shows "dbl_n p q \<le> K"
proof (cases "0 \<le> 52 - dbl_E p q")
  case True
  have "pow2 (dbl_E p q - 52) * pow2 (52 - dbl_E p q) = 1" by (simp add: pow2_def flip: pow2_add)
  then have eq: "rat_of_int (K * q) = rat_of_int K * pow2 (dbl_E p q - 52) * rat_of_int q * pow2 (52 - dbl_E p q)"
    by (simp add: mult.assoc mult.left_commute)
  have "rat_of_int (p * 2 ^ nat (52 - dbl_E p q)) = rat_of_int p * pow2 (52 - dbl_E p q)"
    using True by (simp add: pow2_def)
  also have "\<dots> \<le> rat_of_int K * pow2 (dbl_E p q - 52) * rat_of_int q * pow2 (52 - dbl_E p q)"
    using assms(2) pow2_pos[of "52 - dbl_E p q"] by (simp only: mult_le_cancel_right) simp
  finally have "rat_of_int (p * 2 ^ nat (52 - dbl_E p q)) \<le> rat_of_int (K * q)" by (simp only: eq)
  then have "p * 2 ^ nat (52 - dbl_E p q) \<le> K * q" by (simp only: of_int_le_iff)
  then show ?thesis using True assms(1) by (simp add: dbl_n_def round_half_even_le)
next
  case False
  then have "pow2 (dbl_E p q - 52) = rat_of_int (2 ^ nat (- (52 - dbl_E p q)))"
    by (simp add: pow2_def)
  with assms(2) have "rat_of_int p \<le> rat_of_int (K * (q * 2 ^ nat (- (52 - dbl_E p q))))"
    by (simp add: mult.assoc mult.left_commute mult.commute)
  then have "p \<le> K * (q * 2 ^ nat (- (52 - dbl_E p q)))" by (simp only: of_int_le_iff)
  then show ?thesis using False assms(1) by (simp add: dbl_n_def round_half_even_le)
qed

lemma to_double_pos_eq:
  assumes "0 < p"
  shows "to_double p q =
     (let E' = (if dbl_n p q = 2 ^ 53 then dbl_E p q + 1 else dbl_E p q)
      in if 1023 < E' then PosInf
         else Fin (if dbl_n p q = 2 ^ 53 then 2 ^ 52 else dbl_n p q) (E' - 52))"
proof -
  have "\<bar>p\<bar> = p" "p \<noteq> 0" using assms by simp_all
  then show ?thesis
    unfolding to_double_def dbl_n_def dbl_E_def Let_def using assms by (auto simp: max_def)
qed

lemma pow2_numeral_53: "pow2 53 = 9007199254740992" "pow2 52 = 4503599627370496" "pow2 1 = 2"
  by (simp_all add: pow2_def)

lemma to_double_pos_shape:
  assumes "0 < p"
  shows "to_double p q = PosInf \<or> (\<exists>m e. to_double p q = Fin m e)"
  by (simp add: to_double_pos_eq[OF assms] Let_def)

lemma to_double_pos_value:
  assumes "0 < p" and "to_double p q = Fin m e"
  shows "rat_of_int m * pow2 e = rat_of_int (dbl_n p q) * pow2 (dbl_E p q - 52)"
proof (cases "dbl_n p q = 2 ^ 53")
  case True
  with assms have m: "m = 2 ^ 52" and e: "e = dbl_E p q + 1 - 52"
    by (simp_all add: to_double_pos_eq Let_def split: if_splits)
  have "pow2 e = pow2 1 * pow2 (dbl_E p q - 52)"
    by (simp add: e flip: pow2_add)
  then show ?thesis by (simp add: m True pow2_numeral_53)
next
  case False
  with assms show ?thesis
    by (simp add: to_double_pos_eq Let_def split: if_splits)
qed

lemma to_double_pos_finite:
  assumes "0 < p" and "dbl_E p q \<le> 1023" and "dbl_n p q = 2 ^ 53 \<Longrightarrow> dbl_E p q \<le> 1022"
  shows "\<exists>m e. to_double p q = Fin m e"
  using assms(2,3) by (auto simp: to_double_pos_eq[OF assms(1)] Let_def)

lemma dbl_E_cases: "dbl_E p q = - 1022 \<or> dbl_E p q = floor_log2 p q"
  by (simp add: dbl_E_def max_def)

lemma dbl_E_ge: "- 1022 \<le> dbl_E p q" "floor_log2 p q \<le> dbl_E p q"
  by (simp_all add: dbl_E_def)

lemma to_double_ge_repr:
  assumes "0 < p" and "0 < q" and "0 < k" and "k < 2 ^ 53" and "- 1074 \<le> j"
    and le: "rat_of_int k * pow2 j * rat_of_int q \<le> rat_of_int p"
  shows "num_le (Fin k j) (to_double p q)"
proof -
  define E where "E = dbl_E p q"
  define n where "n = dbl_n p q"
  define u where "u = pow2 (E - 52)"
  have u: "0 < u" by (simp add: u_def pow2_pos)
  have core: "rat_of_int k * pow2 j \<le> rat_of_int n * u"
  proof (cases "E - 52 \<le> j")
    case True
    define K where "K = k * 2 ^ nat (j - (E - 52))"
    have Ku: "rat_of_int K * u = of_int k * pow2 j"
      using scaled_value[OF True, of k] pow2_pos[of "E - 52"] by (simp add: K_def u_def)
    then have "rat_of_int K * pow2 (dbl_E p q - 52) * rat_of_int q \<le> rat_of_int p"
      using le by (simp add: E_def u_def)
    then have "K \<le> n" unfolding n_def by (rule dbl_n_ge[OF assms(2)])
    then have "rat_of_int K * u \<le> rat_of_int n * u" using u by simp
    then show ?thesis by (simp only: Ku)
  next
    case False
    then have jE: "j + 53 \<le> E" by simp
    with assms(5) have "E \<noteq> - 1022" by simp
    with dbl_E_cases[of p q] have Efl: "E = floor_log2 p q" by (simp add: E_def)
    have "rat_of_int (2 ^ 52) * pow2 (dbl_E p q - 52) = pow2 E"
      by (simp add: E_def flip: pow2_numeral_53(2) pow2_add)
    then have "rat_of_int (2 ^ 52) * pow2 (dbl_E p q - 52) * rat_of_int q \<le> rat_of_int p"
      using floor_log2_bounds(1)[OF assms(1,2)] by (simp only: Efl)
    then have "2 ^ 52 \<le> n" unfolding n_def by (rule dbl_n_ge[OF assms(2)])
    then have "rat_of_int (2 ^ 52) \<le> rat_of_int n" by (simp only: of_int_le_iff)
    then have n52: "pow2 52 * u \<le> rat_of_int n * u" using u by (simp add: pow2_numeral_53)
    have "rat_of_int k < pow2 53" using assms(4) by (simp add: pow2_numeral_53)
    then have "rat_of_int k * pow2 j \<le> pow2 53 * pow2 j" using pow2_pos[of j] by simp
    also have "\<dots> = pow2 (j + 53)" by (simp add: pow2_add)
    also have "\<dots> \<le> pow2 E" using jE by (rule pow2_mono)
    also have "\<dots> = pow2 52 * u" by (simp add: u_def flip: pow2_add)
    finally show ?thesis using n52 by simp
  qed
  from to_double_pos_shape[OF assms(1), of q] show ?thesis
  proof
    assume "to_double p q = PosInf"
    then show ?thesis by simp
  next
    assume "\<exists>m e. to_double p q = Fin m e"
    then obtain m e where me: "to_double p q = Fin m e" by blast
    from to_double_pos_value[OF assms(1) me] core
    have "num_le (Fin k j) (Fin m e)"
      unfolding num_le_Fin_iff by (simp add: n_def u_def E_def)
    then show ?thesis by (simp only: me)
  qed
qed

lemma to_double_le_repr:
  assumes "0 < p" and "0 < q" and "0 < k" and "k < 2 ^ 53" and "- 1074 \<le> j" and "j \<le> 971"
    and le: "rat_of_int p \<le> rat_of_int k * pow2 j * rat_of_int q"
  shows "num_le (to_double p q) (Fin k j)"
proof -
  define E where "E = dbl_E p q"
  define n where "n = dbl_n p q"
  define u where "u = pow2 (E - 52)"
  have u: "0 < u" by (simp add: u_def pow2_pos)
  have qpos: "0 < rat_of_int q" using assms(2) by simp
  have "pow2 (floor_log2 p q) * rat_of_int q \<le> rat_of_int k * pow2 j * rat_of_int q"
    using floor_log2_bounds(1)[OF assms(1,2)] le by simp
  then have "pow2 (floor_log2 p q) \<le> rat_of_int k * pow2 j"
    using qpos by (simp add: mult_le_cancel_right)
  also have "\<dots> < pow2 53 * pow2 j"
    using assms(4) pow2_pos[of j] by (simp add: pow2_numeral_53)
  also have "\<dots> = pow2 (j + 53)" by (simp add: pow2_add)
  finally have lt: "pow2 (floor_log2 p q) < pow2 (j + 53)" .
  have "floor_log2 p q < j + 53"
  proof (rule ccontr)
    assume "\<not> floor_log2 p q < j + 53"
    then have "j + 53 \<le> floor_log2 p q" by simp
    from pow2_mono[OF this] lt show False by simp
  qed
  with assms(5) dbl_E_cases[of p q] have Ej: "E - 52 \<le> j" by (auto simp: E_def)
  define K where "K = k * 2 ^ nat (j - (E - 52))"
  have Ku: "rat_of_int K * u = of_int k * pow2 j"
    using scaled_value[OF Ej, of k] pow2_pos[of "E - 52"] by (simp add: K_def u_def)
  then have "rat_of_int p \<le> rat_of_int K * pow2 (dbl_E p q - 52) * rat_of_int q"
    using le by (simp add: E_def u_def)
  then have nK: "n \<le> K" unfolding n_def by (rule dbl_n_le[OF assms(2)])
  have E1023: "dbl_E p q \<le> 1023" using Ej assms(6) by (simp add: E_def)
  have carry: "dbl_E p q \<le> 1022" if "dbl_n p q = 2 ^ 53"
  proof (rule ccontr)
    assume "\<not> dbl_E p q \<le> 1022"
    with E1023 have "E = 1023" by (simp add: E_def)
    with Ej assms(6) have "j = 971" by simp
    then have "K = k" using \<open>E = 1023\<close> by (simp add: K_def)
    with nK that assms(4) show False by (simp add: n_def)
  qed
  from to_double_pos_finite[OF assms(1) E1023 carry] obtain m e where me: "to_double p q = Fin m e"
    by blast
  have "rat_of_int n * u \<le> rat_of_int K * u" using nK u by simp
  with to_double_pos_value[OF assms(1) me] Ku
  have "num_le (Fin m e) (Fin k j)"
    unfolding num_le_Fin_iff by (simp add: n_def u_def E_def)
  then show ?thesis by (simp only: me)
qed

text \<open>
  \<open>to_double\<close> rounds to nearest: a finite result is within half a unit in the last
  place, \<open>2 ^ (E - 53)\<close>, of the fraction.
\<close>

lemma round_half_even_near:
  assumes "0 < D"
  shows "\<bar>2 * (round_half_even N D * D - N)\<bar> \<le> D"
proof -
  define r where "r = N mod D"
  have N: "N = (N div D) * D + r" by (simp add: r_def)
  have r: "0 \<le> r" "r < D" using assms by (simp_all add: r_def)
  have a: "(N div D) * D - N = - r" using N by simp
  have b: "(N div D + 1) * D - N = D - r" using N by (simp add: algebra_simps)
  show ?thesis
    unfolding round_half_even_def Let_def
    using r a b by (auto simp: r_def[symmetric])
qed

lemma dbl_n_near:
  assumes "0 < q"
  shows "\<bar>rat_of_int (dbl_n p q) * pow2 (dbl_E p q - 52) - rat_of_int p / rat_of_int q\<bar>
           \<le> pow2 (dbl_E p q - 53)"
proof -
  define E where "E = dbl_E p q"
  have half: "pow2 (E - 52) = 2 * pow2 (E - 53)"
  proof -
    have "pow2 (E - 52) = pow2 1 * pow2 (E - 53)" by (simp flip: pow2_add)
    then show ?thesis by (simp add: pow2_numeral_53)
  qed
  have q: "0 < rat_of_int q" using assms by simp
  show ?thesis
  proof (cases "0 \<le> 52 - E")
    case True
    define s where "s = nat (52 - E)"
    have n: "dbl_n p q = round_half_even (p * 2 ^ s) q"
      using True by (simp add: dbl_n_def E_def s_def)
    have u: "pow2 (E - 52) * 2 ^ s = 1"
    proof -
      have "pow2 (E - 52) * pow2 (int s) = 1" using True by (simp add: s_def pow2_def flip: pow2_add)
      then show ?thesis by (simp add: pow2_nat)
    qed
    from round_half_even_near[OF assms, of "p * 2 ^ s"]
    have "\<bar>rat_of_int (2 * (dbl_n p q * q - p * 2 ^ s))\<bar> \<le> rat_of_int q"
      unfolding n by (simp only: of_int_abs[symmetric] of_int_le_iff)
    then have "\<bar>2 * (rat_of_int (dbl_n p q) * rat_of_int q - rat_of_int p * 2 ^ s)\<bar> \<le> rat_of_int q"
      by simp
    then have "\<bar>2 * (rat_of_int (dbl_n p q) * rat_of_int q - rat_of_int p * 2 ^ s)\<bar> * (pow2 (E - 53) / rat_of_int q)
        \<le> rat_of_int q * (pow2 (E - 53) / rat_of_int q)"
      using q pow2_pos[of "E - 53"] by (intro mult_right_mono) simp_all
    moreover have "\<bar>2 * (rat_of_int (dbl_n p q) * rat_of_int q - rat_of_int p * 2 ^ s)\<bar> * (pow2 (E - 53) / rat_of_int q)
        = \<bar>rat_of_int (dbl_n p q) * pow2 (E - 52) - rat_of_int p / rat_of_int q * (pow2 (E - 52) * 2 ^ s)\<bar>"
    proof -
      have pos: "0 \<le> pow2 (E - 53) / rat_of_int q" using q pow2_pos[of "E - 53"] by simp
      have "\<bar>2 * (rat_of_int (dbl_n p q) * rat_of_int q - rat_of_int p * 2 ^ s)\<bar> * (pow2 (E - 53) / rat_of_int q)
          = \<bar>2 * (rat_of_int (dbl_n p q) * rat_of_int q - rat_of_int p * 2 ^ s) * (pow2 (E - 53) / rat_of_int q)\<bar>"
        using pos by (simp only: abs_mult abs_of_nonneg)
      also have "2 * (rat_of_int (dbl_n p q) * rat_of_int q - rat_of_int p * 2 ^ s) * (pow2 (E - 53) / rat_of_int q)
          = rat_of_int (dbl_n p q) * pow2 (E - 52) - rat_of_int p / rat_of_int q * (pow2 (E - 52) * 2 ^ s)"
        using q by (simp add: half field_simps)
      finally show ?thesis .
    qed
    ultimately have "\<bar>rat_of_int (dbl_n p q) * pow2 (E - 52) - rat_of_int p / rat_of_int q * (pow2 (E - 52) * 2 ^ s)\<bar>
        \<le> pow2 (E - 53)"
      using q by simp
    then show ?thesis unfolding u by (simp add: E_def)
  next
    case False
    define s where "s = nat (E - 52)"
    have n: "dbl_n p q = round_half_even p (q * 2 ^ s)"
      using False by (simp add: dbl_n_def E_def s_def)
    have u: "pow2 (E - 52) = 2 ^ s" using False by (simp add: s_def pow2_def)
    have D: "0 < q * 2 ^ s" using assms by simp
    from round_half_even_near[OF D, of p]
    have "\<bar>rat_of_int (2 * (dbl_n p q * (q * 2 ^ s) - p))\<bar> \<le> rat_of_int (q * 2 ^ s)"
      unfolding n by (simp only: of_int_abs[symmetric] of_int_le_iff)
    then have "\<bar>2 * (rat_of_int (dbl_n p q) * (rat_of_int q * 2 ^ s) - rat_of_int p)\<bar> \<le> rat_of_int q * 2 ^ s"
      by simp
    then have "\<bar>2 * (rat_of_int (dbl_n p q) * (rat_of_int q * 2 ^ s) - rat_of_int p)\<bar> * (1 / (2 * rat_of_int q))
        \<le> rat_of_int q * 2 ^ s * (1 / (2 * rat_of_int q))"
      using q by (intro mult_right_mono) simp_all
    moreover have "\<bar>2 * (rat_of_int (dbl_n p q) * (rat_of_int q * 2 ^ s) - rat_of_int p)\<bar> * (1 / (2 * rat_of_int q))
        = \<bar>rat_of_int (dbl_n p q) * 2 ^ s - rat_of_int p / rat_of_int q\<bar>"
    proof -
      have pos: "0 \<le> 1 / (2 * rat_of_int q)" using q by simp
      have "\<bar>2 * (rat_of_int (dbl_n p q) * (rat_of_int q * 2 ^ s) - rat_of_int p)\<bar> * (1 / (2 * rat_of_int q))
          = \<bar>2 * (rat_of_int (dbl_n p q) * (rat_of_int q * 2 ^ s) - rat_of_int p) * (1 / (2 * rat_of_int q))\<bar>"
        using pos by (simp only: abs_mult abs_of_nonneg)
      also have "2 * (rat_of_int (dbl_n p q) * (rat_of_int q * 2 ^ s) - rat_of_int p) * (1 / (2 * rat_of_int q))
          = rat_of_int (dbl_n p q) * 2 ^ s - rat_of_int p / rat_of_int q"
        using q by (simp add: field_simps)
      finally show ?thesis .
    qed
    moreover have "rat_of_int q * 2 ^ s * (1 / (2 * rat_of_int q)) = pow2 (E - 53)"
      using q half u by simp
    ultimately have "\<bar>rat_of_int (dbl_n p q) * 2 ^ s - rat_of_int p / rat_of_int q\<bar> \<le> pow2 (E - 53)"
      by simp
    then show ?thesis unfolding u[symmetric] by (simp add: E_def)
  qed
qed

lemma to_double_nearest:
  assumes "0 < p" and "0 < q" and "to_double p q = Fin m e"
  shows "\<bar>value_of (to_double p q) - rat_of_int p / rat_of_int q\<bar> \<le> pow2 (dbl_E p q - 53)"
  using dbl_n_near[OF assms(2), of p] to_double_pos_value[OF assms(1,3)]
  by (simp add: assms(3))

lemma to_double_relative_error:
  assumes "0 < p" and "0 < q" and "to_double p q = Fin m e"
    and "pow2 (- 1022) * rat_of_int q \<le> rat_of_int p"
  shows "\<bar>value_of (to_double p q) - rat_of_int p / rat_of_int q\<bar>
           \<le> rat_of_int p / rat_of_int q / 2 ^ 53"
proof -
  have q: "0 < rat_of_int q" using assms(2) by simp
  from floor_log2_bounds[OF assms(1,2)]
  have lo: "pow2 (floor_log2 p q) * rat_of_int q \<le> rat_of_int p"
    and hi: "rat_of_int p < pow2 (floor_log2 p q + 1) * rat_of_int q" by simp_all
  have "pow2 (- 1022) * rat_of_int q < pow2 (floor_log2 p q + 1) * rat_of_int q"
    using assms(4) hi by simp
  then have "pow2 (- 1022) < pow2 (floor_log2 p q + 1)" using q by simp
  then have "- 1022 < floor_log2 p q + 1"
    using pow2_mono[of "floor_log2 p q + 1" "- 1022"] by (cases "- 1022 < floor_log2 p q + 1") simp_all
  then have E: "dbl_E p q = floor_log2 p q" by (simp add: dbl_E_def)
  have "pow2 (floor_log2 p q) = pow2 53 * pow2 (floor_log2 p q - 53)" by (simp flip: pow2_add)
  then have s: "pow2 (floor_log2 p q - 53) = pow2 (floor_log2 p q) / 2 ^ 53"
    by (simp add: pow2_numeral_53)
  have "pow2 (floor_log2 p q) \<le> rat_of_int p / rat_of_int q"
    using lo q by (simp add: pos_le_divide_eq)
  then have "pow2 (floor_log2 p q) / 2 ^ 53 \<le> rat_of_int p / rat_of_int q / 2 ^ 53"
    by (simp add: divide_right_mono)
  with to_double_nearest[OF assms(1,2,3)] show ?thesis unfolding E s by linarith
qed

subsection \<open>The total of an estimate\<close>

lemma to_double_neg:
  assumes "0 < p"
  shows "to_double (- p) q =
     (case to_double p q of Fin m e \<Rightarrow> Fin (- m) e | PosInf \<Rightarrow> NegInf | x \<Rightarrow> x)"
  using assms by (simp add: to_double_def Let_def)

lemma to_double_int_exact_pos:
  assumes "0 < g" and "g \<le> 2 ^ 53"
  shows "\<exists>m e. to_double g 1 = Fin m e \<and> rat_of_int m * pow2 e = rat_of_int g"
proof -
  obtain k j where kj: "0 < k" "k < 2 ^ 53" "- 1074 \<le> j" "j \<le> 971"
      and val: "rat_of_int k * pow2 j = rat_of_int g"
  proof (cases "g = 2 ^ 53")
    case True
    have "rat_of_int (2 ^ 52) * pow2 1 = rat_of_int g" by (simp add: True pow2_numeral_53)
    then show ?thesis using that[of "2 ^ 52" 1] by simp
  next
    case False
    have "rat_of_int g * pow2 0 = rat_of_int g" by (simp add: pow2_def)
    then show ?thesis using that[of g 0] assms False by simp
  qed
  have le: "num_le (to_double g 1) (Fin k j)"
    using to_double_le_repr[OF assms(1) _ kj, of 1] val by simp
  have ge: "num_le (Fin k j) (to_double g 1)"
    using to_double_ge_repr[OF assms(1) _ kj(1,2,3), of 1] val by simp
  from to_double_pos_shape[OF assms(1), of 1] le obtain m e where me: "to_double g 1 = Fin m e"
    by auto
  from le ge have "rat_of_int m * pow2 e = rat_of_int k * pow2 j"
    unfolding me num_le_Fin_iff by simp
  with val me show ?thesis by simp
qed

lemma to_double_int_exact:
  assumes "\<bar>g\<bar> \<le> 2 ^ 53"
  shows "isFinite (to_double g 1) \<and> value_of (to_double g 1) = rat_of_int g"
proof -
  consider "g = 0" | "0 < g" | "g < 0" by linarith
  then show ?thesis
  proof cases
    case 1
    then show ?thesis by (simp add: to_double_def)
  next
    case 2
    with assms to_double_int_exact_pos[of g] show ?thesis by auto
  next
    case 3
    then have pos: "0 < - g" and le: "- g \<le> 2 ^ 53" using assms by simp_all
    from to_double_int_exact_pos[OF pos le] obtain m e
      where me: "to_double (- g) 1 = Fin m e" "rat_of_int m * pow2 e = rat_of_int (- g)" by blast
    from to_double_neg[OF pos, of 1] me(1) have "to_double g 1 = Fin (- m) e" by simp
    with me(2) show ?thesis by simp
  qed
qed

lemma estimate_result_shape:
  assumes "estimateEthTransfer l recipient valueEth url = Inr r"
  shows "\<exists>to_address weiValue fees gasLimit.
           recipient = JStr to_address \<and> parseEther l valueEth = Some weiValue
           \<and> getFeeData (JsonRpcProvider l url) = Inr fees
           \<and> estimateGas (JsonRpcProvider l url) to_address weiValue = Inr gasLimit
           \<and> or_else (maxFeePerGas fees) (gasPrice fees) = Some (gasPriceWei r)
           \<and> totalWei r = gasLimit * gasPriceWei r \<and> gasUnits r = to_double gasLimit 1"
  using assms
  by (auto simp: estimateEthTransfer_def estimate_try_def
           split: jsval.splits option.splits sum.splits if_splits)

text \<open>
  C3. The total of an estimation result is to be the exact product of its \<open>gasUnits\<close>
  and its \<open>gasPriceWei\<close>. In the code a result comes from a recipient that is a
  string, a value that \<open>ethers.parseEther\<close> reads, the fee data and the gas estimate
  of the provider for this recipient and value; \<open>gasPriceWei\<close> is \<open>maxFeePerGas\<close>
  or else \<open>gasPrice\<close> of the fee data, the total is the exact product of the gas
  estimate, a bigint, and that price, and \<open>gasUnits\<close> is \<open>Number(gasLimit)\<close>, the
  Number nearest to the estimate: the two agree, and the total is the product of
  \<open>gasUnits\<close> and \<open>gasPriceWei\<close>, whenever the estimate is at most \<open>2 ^ 53\<close> in
  absolute value.
\<close>

theorem estimate_total_is_product:
  assumes "estimateEthTransfer l recipient valueEth url = Inr r"
  shows "\<exists>to_address weiValue fees gasLimit.
           recipient = JStr to_address \<and> parseEther l valueEth = Some weiValue
           \<and> getFeeData (JsonRpcProvider l url) = Inr fees
           \<and> estimateGas (JsonRpcProvider l url) to_address weiValue = Inr gasLimit
           \<and> or_else (maxFeePerGas fees) (gasPrice fees) = Some (gasPriceWei r)
           \<and> totalWei r = gasLimit * gasPriceWei r \<and> gasUnits r = to_double gasLimit 1
           \<and> (\<bar>gasLimit\<bar> \<le> 2 ^ 53 \<longrightarrow>
                 isFinite (gasUnits r) \<and> value_of (gasUnits r) = rat_of_int gasLimit
                 \<and> rat_of_int (totalWei r) = value_of (gasUnits r) * rat_of_int (gasPriceWei r))"
proof -
  from estimate_result_shape[OF assms] obtain to_address weiValue fees gasLimit
    where s: "recipient = JStr to_address" "parseEther l valueEth = Some weiValue"
      "getFeeData (JsonRpcProvider l url) = Inr fees"
      "estimateGas (JsonRpcProvider l url) to_address weiValue = Inr gasLimit"
      "or_else (maxFeePerGas fees) (gasPrice fees) = Some (gasPriceWei r)"
      and g: "totalWei r = gasLimit * gasPriceWei r" "gasUnits r = to_double gasLimit 1"
    by blast
  have "isFinite (gasUnits r) \<and> value_of (gasUnits r) = rat_of_int gasLimit
                 \<and> rat_of_int (totalWei r) = value_of (gasUnits r) * rat_of_int (gasPriceWei r)"
    if "\<bar>gasLimit\<bar> \<le> 2 ^ 53"
    using to_double_int_exact[OF that] g by simp
  with s g show ?thesis by blast
qed

theorem estimate_total_is_product_witness:
  "estimateEthTransfer example_lib (JStr ''0x000000000000000000000000000000000000dead'')
     ''0.1'' (JStr ''https://mainnet.base.org'') = Inr example_result
   \<and> estimateGas (JsonRpcProvider example_lib (JStr ''https://mainnet.base.org''))
         ''0x000000000000000000000000000000000000dead'' (10 ^ 17) = Inr 21000
   \<and> \<bar>21000 :: int\<bar> \<le> 2 ^ 53
   \<and> rat_of_int (totalWei example_result)
       = value_of (gasUnits example_result) * rat_of_int (gasPriceWei example_result)"
proof -
  have h: "estimateEthTransfer example_lib (JStr ''0x000000000000000000000000000000000000dead'')
     ''0.1'' (JStr ''https://mainnet.base.org'') = Inr example_result"
    by code_simp
  have e: "estimateGas (JsonRpcProvider example_lib (JStr ''https://mainnet.base.org'')) a w = Inr 21000"
    for a w
    by (simp add: example_lib_def example_node_def)
  from estimate_total_is_product[OF h] obtain to_address weiValue g
    where g: "estimateGas (JsonRpcProvider example_lib (JStr ''https://mainnet.base.org''))
                to_address weiValue = Inr g"
      and imp: "\<bar>g\<bar> \<le> 2 ^ 53 \<longrightarrow>
         rat_of_int (totalWei example_result)
           = value_of (gasUnits example_result) * rat_of_int (gasPriceWei example_result)"
    by blast
  from g e have "g = 21000" by simp
  with imp h e show ?thesis by simp
qed

text \<open>
  With an estimate of \<open>2 ^ 53 + 1\<close> units, \<open>gasUnits\<close> is the Number \<open>2 ^ 53\<close>, and the
  total is not its product with the price.
\<close>

theorem estimate_total_counterexample:
  "estimateEthTransfer huge_estimate_lib (JStr ''0x000000000000000000000000000000000000dead'')
     ''0.1'' (JStr ''https://mainnet.base.org'')
   = Inr \<lparr>gasUnits = Fin 4503599627370496 1, gasPriceWei = 1897000,
          totalWei = 17086656986243663721000, gasText = ''0.001897 Gwei (1897000 wei)'',
          totalText = ''17086.656986''\<rparr>
   \<and> (17086656986243663721000 :: int) \<noteq> 4503599627370496 * 2 ^ 1 * 1897000"
  by code_simp


subsection \<open>Digits and trimming\<close>

lemma digit_cases:
  assumes "0 \<le> d" and "d < 10"
  shows "d = 0 \<or> d = 1 \<or> d = 2 \<or> d = 3 \<or> d = 4 \<or> d = 5 \<or> d = 6 \<or> d = 7 \<or> d = 8 \<or> d = (9::int)"
  using assms by arith

lemma digit_char_not_point: "0 \<le> d \<Longrightarrow> d < 10 \<Longrightarrow> digit_char d \<noteq> CHR ''.''"
  using digit_cases[of d] by (auto simp: digit_char_def)

lemma digit_char_0: "digit_char 0 = CHR ''0''"
  by (simp add: digit_char_def)

lemma digits_of_no_point: "0 \<le> n \<Longrightarrow> CHR ''.'' \<notin> set (digits_of n)"
proof (induction n rule: digits_of.induct)
  case (1 n)
  show ?case
  proof (cases "n < 10")
    case True
    with "1.prems" show ?thesis
      using digit_char_not_point[of n] by (simp add: digits_of.simps[of n])
  next
    case False
    with "1.prems" have "CHR ''.'' \<notin> set (digits_of (n div 10))" by (intro "1.IH") simp_all
    moreover have "digit_char (n mod 10) \<noteq> CHR ''.''" by (rule digit_char_not_point) simp_all
    ultimately show ?thesis using False by (simp add: digits_of.simps[of n])
  qed
qed

lemma digits_of_nonempty: "digits_of n \<noteq> []"
  by (simp add: digits_of.simps[of n])

lemma frac_digits_no_point: "CHR ''.'' \<notin> set (frac_digits f r)"
proof (induction f arbitrary: r)
  case 0
  show ?case by simp
next
  case (Suc f)
  have "digit_char (r mod 10) \<noteq> CHR ''.''" by (rule digit_char_not_point) simp_all
  with Suc show ?case by simp
qed

lemma length_frac_digits: "length (frac_digits f r) = f"
  by (induction f arbitrary: r) simp_all

lemma padded_Suc:
  assumes "0 \<le> n"
  shows "padded (Suc f) n = padded f (n div 10) @ [digit_char (n mod 10)]"
proof (cases "n < 10")
  case True
  then have n: "n div 10 = 0" "n mod 10 = n" using assms by simp_all
  have d0: "digits_of 0 = [CHR ''0'']" by (simp add: digits_of.simps[of 0] digit_char_0)
  have dn: "digits_of n = [digit_char n]" using True by (simp add: digits_of.simps[of n])
  have "padded f 0 = replicate (Suc f) CHR ''0''"
    by (cases f) (simp_all add: padded_def d0 digit_char_0 replicate_append_same)
  then show ?thesis by (simp add: n padded_def dn)
next
  case False
  then have dn: "digits_of n = digits_of (n div 10) @ [digit_char (n mod 10)]"
    by (simp add: digits_of.simps[of n])
  have "1 \<le> length (digits_of (n div 10))"
    using digits_of_nonempty[of "n div 10"] by (cases "digits_of (n div 10)") simp_all
  then show ?thesis by (auto simp: padded_def dn Suc_diff_le)
qed

lemma padded_split:
  "0 \<le> n \<Longrightarrow> padded f n = digits_of (n div 10 ^ f) @ frac_digits f (n mod 10 ^ f)"
proof (induction f arbitrary: n)
  case 0
  then show ?case by (simp add: padded_def)
next
  case (Suc f)
  have c: "(0::int) < 10 ^ f" by simp
  have d1: "n div (10 * 10 ^ f) = n div 10 div 10 ^ f"
    by (simp add: zdiv_zmult2_eq)
  have m: "n mod (10 * 10 ^ f) = 10 * (n div 10 mod 10 ^ f) + n mod 10"
    using zmod_zmult2_eq[of "10 ^ f" n 10] by simp
  have d2: "n mod (10 * 10 ^ f) div 10 = n div 10 mod 10 ^ f" unfolding m by simp
  have d3: "n mod (10 * 10 ^ f) mod 10 = n mod 10" unfolding m by simp
  have "padded (Suc f) n = padded f (n div 10) @ [digit_char (n mod 10)]"
    using Suc.prems by (rule padded_Suc)
  also have "padded f (n div 10) = digits_of (n div 10 div 10 ^ f) @ frac_digits f (n div 10 mod 10 ^ f)"
    using Suc.prems by (intro Suc.IH) simp
  finally show ?case
    by (simp only: power_Suc d1 frac_digits.simps d2 d3 append_assoc)
qed

lemma fixed_digits_split:
  assumes "0 \<le> n" and "0 < f"
  shows "fixed_digits f n = digits_of (n div 10 ^ f) @ CHR ''.'' # frac_digits f (n mod 10 ^ f)"
proof -
  have pad: "fixed_digits f n = take (length (padded f n) - f) (padded f n) @ CHR ''.'' # drop (length (padded f n) - f) (padded f n)"
    using assms(2) by (simp add: fixed_digits_def padded_def Let_def)
  have len: "length (padded f n) - f = length (digits_of (n div 10 ^ f))"
    by (simp add: padded_split[OF assms(1)] length_frac_digits)
  show ?thesis
    unfolding pad len by (simp add: padded_split[OF assms(1)])
qed

lemma fixed_digits_0: "fixed_digits 0 n = digits_of n"
  by (simp add: fixed_digits_def Let_def)

lemma strip_Cons:
  "strip_trailing_zeros (c # cs) =
     (if list_all (\<lambda>x. x = CHR ''0'') (c # cs) then [] else c # strip_trailing_zeros cs)"
proof (cases "list_all (\<lambda>x. x = CHR ''0'') cs")
  case True
  then have all: "x = CHR ''0''" if "x \<in> set (rev cs)" for x
    using that by (simp add: list_all_iff)
  have a: "dropWhile (\<lambda>c. c = CHR ''0'') (rev cs @ [c]) = dropWhile (\<lambda>c. c = CHR ''0'') [c]"
    by (rule dropWhile_append2) (rule all)
  have b: "dropWhile (\<lambda>c. c = CHR ''0'') (rev cs) = []"
    using all by (simp add: dropWhile_eq_Nil_conv)
  show ?thesis using True by (simp add: strip_trailing_zeros_def a b)
next
  case False
  then obtain x where "x \<in> set (rev cs)" "x \<noteq> CHR ''0''" by (auto simp: list_all_iff)
  then have "dropWhile (\<lambda>c. c = CHR ''0'') (rev cs @ [c]) = dropWhile (\<lambda>c. c = CHR ''0'') (rev cs) @ [c]"
    by (simp add: dropWhile_append1)
  then show ?thesis using False by (simp add: strip_trailing_zeros_def)
qed

lemma replace_no_point:
  "CHR ''.'' \<notin> set t \<Longrightarrow> replace_trailing_zeros t = strip_trailing_zeros t"
proof (induction t)
  case Nil
  show ?case by (simp add: strip_trailing_zeros_def)
next
  case (Cons c cs)
  then show ?case by (auto simp: strip_Cons zeros_to_end_def)
qed

lemma replace_point_frac:
  assumes "CHR ''.'' \<notin> set fr" and "fr \<noteq> []"
  shows "replace_trailing_zeros (CHR ''.'' # fr) =
     (if strip_trailing_zeros fr = [] then [] else CHR ''.'' # strip_trailing_zeros fr)"
proof -
  obtain c cs where f: "fr = c # cs" using assms(2) by (cases fr) auto
  have "strip_trailing_zeros fr = [] \<longleftrightarrow> list_all (\<lambda>x. x = CHR ''0'') fr"
    by (simp add: f strip_Cons)
  then show ?thesis
    using assms by (simp add: replace_no_point zeros_to_end_def)
qed

lemma replace_int_part:
  assumes "CHR ''.'' \<notin> set ip"
  shows "replace_trailing_zeros (ip @ CHR ''.'' # fr) = ip @ replace_trailing_zeros (CHR ''.'' # fr)"
  using assms
proof (induction ip)
  case Nil
  show ?case by simp
next
  case (Cons c cs)
  then have "\<not> matches_here (c # cs @ CHR ''.'' # fr)"
    by (simp add: zeros_to_end_def)
  with Cons show ?case by simp
qed

lemma replace_fixed_digits:
  assumes "0 \<le> n" and "0 < f"
  shows "replace_trailing_zeros (fixed_digits f n) = render_decimal f n"
proof -
  have fr: "CHR ''.'' \<notin> set (frac_digits f (n mod 10 ^ f))" "frac_digits f (n mod 10 ^ f) \<noteq> []"
    using assms(2) length_frac_digits[of f "n mod 10 ^ f"] by (auto simp: frac_digits_no_point)
  have ip: "CHR ''.'' \<notin> set (digits_of (n div 10 ^ f))"
    using assms(1) by (intro digits_of_no_point) (simp add: pos_imp_zdiv_nonneg_iff)
  have "replace_trailing_zeros (fixed_digits f n)
      = replace_trailing_zeros (digits_of (n div 10 ^ f) @ CHR ''.'' # frac_digits f (n mod 10 ^ f))"
    by (simp only: fixed_digits_split[OF assms])
  also have "\<dots> = digits_of (n div 10 ^ f) @ replace_trailing_zeros (CHR ''.'' # frac_digits f (n mod 10 ^ f))"
    by (rule replace_int_part[OF ip])
  also have "\<dots> = digits_of (n div 10 ^ f)
        @ (if strip_trailing_zeros (frac_digits f (n mod 10 ^ f)) = [] then []
           else CHR ''.'' # strip_trailing_zeros (frac_digits f (n mod 10 ^ f)))"
    by (simp only: replace_point_frac[OF fr])
  also have "\<dots> = render_decimal f n"
    by (simp add: render_decimal_def Let_def)
  finally show ?thesis .
qed

lemma render_decimal_0: "render_decimal 0 n = digits_of n"
  by (simp add: render_decimal_def strip_trailing_zeros_def)

subsection \<open>Tiers and rendering of the formatters\<close>

lemma to_double_nonneg:
  assumes "0 \<le> p" and "0 < q" and "to_double p q = Fin m e"
  shows "0 \<le> m"
proof (cases "p = 0")
  case True
  with assms(3) show ?thesis by (simp add: to_double_def)
next
  case False
  with assms(1) have p: "0 < p" by simp
  have "0 \<le> dbl_n p q"
    using p assms(2) by (simp add: dbl_n_def round_half_even_nonneg)
  with assms(3) show ?thesis
    by (auto simp: to_double_pos_eq[OF p] Let_def split: if_splits)
qed

lemma to_double_above:
  assumes "0 < q" and "0 \<le> p" and "0 < k" and "k < 2 ^ 53" and "- 1074 \<le> j"
    and "rat_of_int k * pow2 j * rat_of_int q \<le> rat_of_int p"
  shows "num_le (Fin k j) (to_double p q)"
proof -
  have "0 < rat_of_int k * pow2 j * rat_of_int q"
    using assms(1,3) pow2_pos[of j] by simp
  with assms(6) have "0 < p" by simp
  then show ?thesis using assms by (intro to_double_ge_repr)
qed

lemma to_double_below:
  assumes "0 < q" and "0 \<le> p" and "0 < k" and "k < 2 ^ 53" and "- 1074 \<le> j" and "j \<le> 971"
    and "rat_of_int p \<le> rat_of_int (k - 1) * pow2 j * rat_of_int q"
  shows "\<exists>m e. to_double p q = Fin m e \<and> 0 \<le> m \<and> rat_of_int m * pow2 e < rat_of_int k * pow2 j"
proof (cases "p = 0")
  case True
  have "0 < rat_of_int k * pow2 j" using assms(3) pow2_pos[of j] by simp
  then show ?thesis by (simp add: True to_double_def)
next
  case False
  with assms(2) have p: "0 < p" by simp
  have k1: "0 < k - 1"
  proof (rule ccontr)
    assume "\<not> 0 < k - 1"
    then have "rat_of_int (k - 1) \<le> 0" by simp
    then have "rat_of_int (k - 1) * (pow2 j * rat_of_int q) \<le> 0"
      using assms(1) pow2_pos[of j] by (intro mult_nonpos_nonneg) simp_all
    with assms(7) p show False by (simp add: mult.assoc)
  qed
  have le: "num_le (to_double p q) (Fin (k - 1) j)"
    using assms(4) by (intro to_double_le_repr[OF p assms(1) k1 _ assms(5,6,7)]) simp
  with to_double_pos_shape[OF p, of q] obtain m e where me: "to_double p q = Fin m e" by auto
  from le have "rat_of_int m * pow2 e \<le> rat_of_int (k - 1) * pow2 j"
    unfolding me num_le_Fin_iff .
  also have "\<dots> < rat_of_int k * pow2 j" using pow2_pos[of j] by simp
  finally show ?thesis using me to_double_nonneg[OF assms(2,1) me] by simp
qed

lemma scale_ge_iff:
  "(if 0 \<le> d then b \<le> a * 2 ^ nat d else b * 2 ^ nat (- d) \<le> a)
     \<longleftrightarrow> rat_of_int b \<le> rat_of_int a * pow2 d"
proof (cases "0 \<le> d")
  case True
  have "b \<le> a * 2 ^ nat d \<longleftrightarrow> rat_of_int b \<le> rat_of_int (a * 2 ^ nat d)"
    by (simp only: of_int_le_iff)
  then show ?thesis using True by (simp add: pow2_def)
next
  case False
  have "b * 2 ^ nat (- d) \<le> a \<longleftrightarrow> rat_of_int (b * 2 ^ nat (- d)) \<le> rat_of_int a"
    by (simp only: of_int_le_iff)
  then show ?thesis using False by (simp add: pow2_def field_simps)
qed

lemma at_least_1e21_iff: "at_least_1e21 a e \<longleftrightarrow> 10 ^ 21 \<le> rat_of_int a * pow2 e"
  unfolding at_least_1e21_def using scale_ge_iff[of e "10 ^ 21" a] by simp

lemma toFixed_fixed:
  assumes "0 \<le> m" and "rat_of_int m * pow2 e < 10 ^ 21"
  shows "toFixed f (Fin m e) = fixed_digits f (nearest_scaled m e f)"
  using assms by (simp add: at_least_1e21_iff)

lemma nearest_scaled_nonneg: "0 \<le> a \<Longrightarrow> 0 \<le> nearest_scaled a e f"
  by (simp add: nearest_scaled_def pos_imp_zdiv_nonneg_iff)

lemma render_up_to_Fin: "render_up_to f (Fin m e) = render_decimal f (nearest_scaled m e f)"
  by (simp add: render_up_to_def render_quotient_def nearest_units_def nearest_scaled_def)

lemma toFixed_trimmed:
  assumes "0 \<le> m" and "rat_of_int m * pow2 e < 10 ^ 21" and "0 < f"
  shows "replace_trailing_zeros (toFixed f (Fin m e)) = render_up_to f (Fin m e)"
  using assms
  by (simp only: toFixed_fixed replace_fixed_digits[OF nearest_scaled_nonneg] render_up_to_Fin)

lemma toFixed_0:
  assumes "0 \<le> m" and "rat_of_int m * pow2 e < 10 ^ 21"
  shows "toFixed 0 (Fin m e) = render_up_to 0 (Fin m e)"
  using assms
  by (simp only: toFixed_fixed fixed_digits_0 render_decimal_0 render_up_to_Fin)

lemma literal_values:
  "to_double 1000 1 = Fin 8796093022208000 (- 43)"
  "to_double 1 1 = Fin 4503599627370496 (- 52)"
  "to_double 1 1000 = Fin 4611686018427388 (- 62)"
  "to_double (10 ^ 15) (10 ^ 18) = Fin 4611686018427388 (- 62)"
  by code_simp+

lemma rat_of_int_le: "a \<le> b \<Longrightarrow> rat_of_int a \<le> rat_of_int b"
  by simp

lemma tier:
  assumes "0 < q" and "0 \<le> p" and "0 < k" and "k < 2 ^ 53" and "- 1074 \<le> j" and "j \<le> 971"
    and hi: "rat_of_int k * pow2 j * rat_of_int q \<le> rat_of_int T_hi"
    and lo: "rat_of_int T_lo \<le> rat_of_int (k - 1) * pow2 j * rat_of_int q"
  shows "T_hi \<le> p \<Longrightarrow> num_le (Fin k j) (to_double p q)"
    and "p \<le> T_lo \<Longrightarrow> \<not> num_le (Fin k j) (to_double p q)"
proof -
  assume "T_hi \<le> p"
  then have "rat_of_int T_hi \<le> rat_of_int p" by (rule rat_of_int_le)
  with hi have "rat_of_int k * pow2 j * rat_of_int q \<le> rat_of_int p" by simp
  then show "num_le (Fin k j) (to_double p q)"
    by (rule to_double_above[OF assms(1,2,3,4,5)])
next
  assume "p \<le> T_lo"
  then have "rat_of_int p \<le> rat_of_int T_lo" by (rule rat_of_int_le)
  with lo have "rat_of_int p \<le> rat_of_int (k - 1) * pow2 j * rat_of_int q" by simp
  from to_double_below[OF assms(1,2,3,4,5,6) this] obtain m e
    where me: "to_double p q = Fin m e" "rat_of_int m * pow2 e < rat_of_int k * pow2 j" by blast
  show "\<not> num_le (Fin k j) (to_double p q)"
    unfolding me(1) num_le_Fin_iff using me(2) by simp
qed

lemma gwei_tier_1000:
  assumes "0 \<le> amt"
  shows "num_ge (to_double amt (10 ^ 9)) (to_double 1000 1) \<longleftrightarrow> 10 ^ 12 \<le> amt"
proof -
  have hi: "rat_of_int 8796093022208000 * pow2 (- 43) * rat_of_int (10 ^ 9) \<le> rat_of_int (10 ^ 12)"
    by (simp add: pow2_def)
  have lo: "rat_of_int (10 ^ 12 - 1) \<le> rat_of_int (8796093022208000 - 1) * pow2 (- 43) * rat_of_int (10 ^ 9)"
    by (simp add: pow2_def)
  note t = tier[of "10 ^ 9" amt 8796093022208000 "- 43", OF _ assms _ _ _ _ hi lo]
  show ?thesis
  proof (cases "10 ^ 12 \<le> amt")
    case True
    with t(1) show ?thesis by (simp add: num_ge_def literal_values)
  next
    case False
    then have "amt \<le> 10 ^ 12 - 1" by simp
    with t(2) False show ?thesis by (simp add: num_ge_def literal_values)
  qed
qed

lemma gwei_tier_1:
  assumes "0 \<le> amt"
  shows "num_ge (to_double amt (10 ^ 9)) (to_double 1 1) \<longleftrightarrow> 10 ^ 9 \<le> amt"
proof -
  have hi: "rat_of_int 4503599627370496 * pow2 (- 52) * rat_of_int (10 ^ 9) \<le> rat_of_int (10 ^ 9)"
    by (simp add: pow2_def)
  have lo: "rat_of_int (10 ^ 9 - 1) \<le> rat_of_int (4503599627370496 - 1) * pow2 (- 52) * rat_of_int (10 ^ 9)"
    by (simp add: pow2_def)
  note t = tier[of "10 ^ 9" amt 4503599627370496 "- 52", OF _ assms _ _ _ _ hi lo]
  show ?thesis
  proof (cases "10 ^ 9 \<le> amt")
    case True
    with t(1) show ?thesis by (simp add: num_ge_def literal_values)
  next
    case False
    then have "amt \<le> 10 ^ 9 - 1" by simp
    with t(2) False show ?thesis by (simp add: num_ge_def literal_values)
  qed
qed

lemma eth_tier_0001:
  assumes "0 \<le> amt"
  shows "num_ge (to_double amt (10 ^ 18)) (to_double 1 1000) \<longleftrightarrow> 10 ^ 15 \<le> amt"
proof -
  have hi: "rat_of_int 4611686018427388 * pow2 (- 62) * rat_of_int (10 ^ 18) \<le> rat_of_int (10 ^ 15 + 1)"
    by (simp add: pow2_def)
  have lo: "rat_of_int (10 ^ 15 - 1) \<le> rat_of_int (4611686018427388 - 1) * pow2 (- 62) * rat_of_int (10 ^ 18)"
    by (simp add: pow2_def)
  note t = tier[of "10 ^ 18" amt 4611686018427388 "- 62", OF _ assms _ _ _ _ hi lo]
  consider "10 ^ 15 + 1 \<le> amt" | "amt = 10 ^ 15" | "amt \<le> 10 ^ 15 - 1" by linarith
  then show ?thesis
  proof cases
    case 1
    with t(1) show ?thesis by (simp add: num_ge_def literal_values)
  next
    case 2
    have "num_le (Fin 4611686018427388 (- 62)) (Fin 4611686018427388 (- 62))"
      unfolding num_le_Fin_iff by simp
    then have "num_ge (to_double amt (10 ^ 18)) (to_double 1 1000)"
      unfolding 2 num_ge_def literal_values .
    then show ?thesis by (simp add: 2)
  next
    case 3
    with t(2) show ?thesis by (simp add: num_ge_def literal_values)
  qed
qed

lemma below_1e21:
  assumes "0 < q" and "0 \<le> amt" and "amt \<le> 999999999999999868928 * q"
  shows "\<exists>m e. to_double amt q = Fin m e \<and> 0 \<le> m \<and> rat_of_int m * pow2 e < 10 ^ 21"
proof -
  have "rat_of_int (7629394531250000 - 1) * pow2 17 = 999999999999999868928"
    by (simp add: pow2_def)
  moreover have "rat_of_int amt \<le> rat_of_int (999999999999999868928 * q)"
    using assms(3) by (rule rat_of_int_le)
  ultimately have "rat_of_int amt \<le> rat_of_int (7629394531250000 - 1) * pow2 17 * rat_of_int q"
    by simp
  from to_double_below[OF assms(1,2) _ _ _ _ this] obtain m e
    where "to_double amt q = Fin m e" "0 \<le> m" "rat_of_int m * pow2 e < rat_of_int 7629394531250000 * pow2 17"
    by auto
  moreover have "rat_of_int 7629394531250000 * pow2 17 = 10 ^ 21" by (simp add: pow2_def)
  ultimately show ?thesis by simp
qed

lemma nearest_units_near:
  assumes "0 < q"
  shows "- q < 2 * (nearest_units f p q * q - p * 10 ^ f)"
    and "2 * (nearest_units f p q * q - p * 10 ^ f) \<le> q"
proof -
  define N where "N = 2 * (p * 10 ^ f) + q"
  define r where "r = N mod (2 * q)"
  have r: "0 \<le> r" "r < 2 * q" using assms by (simp_all add: r_def)
  have "N = (N div (2 * q)) * (2 * q) + r" by (simp only: r_def div_mult_mod_eq)
  then have e: "2 * (nearest_units f p q * q - p * 10 ^ f) = q - r"
    by (simp add: nearest_units_def N_def[symmetric]) (simp add: N_def algebra_simps)
  show "- q < 2 * (nearest_units f p q * q - p * 10 ^ f)" using r e by simp
  show "2 * (nearest_units f p q * q - p * 10 ^ f) \<le> q" using r e by simp
qed

lemma below_1e21_less:
  assumes "0 < q" and "0 \<le> amt" and "num_less (to_double amt q) (to_double (10 ^ 21) 1)"
  shows "\<exists>m e. to_double amt q = Fin m e \<and> 0 \<le> m \<and> rat_of_int m * pow2 e < 10 ^ 21"
proof -
  have l: "to_double (10 ^ 21) 1 = Fin 7629394531250000 17" by code_simp
  have v: "rat_of_int 7629394531250000 * pow2 17 = 10 ^ 21" by (simp add: pow2_def)
  show ?thesis
  proof (cases "amt = 0")
    case True
    then show ?thesis by (simp add: to_double_def)
  next
    case False
    with assms(2) have p: "0 < amt" by simp
    from to_double_pos_shape[OF p] consider "to_double amt q = PosInf"
      | m e where "to_double amt q = Fin m e" by blast
    then show ?thesis
    proof cases
      case 1
      from assms(3) have False unfolding 1 l by simp
      then show ?thesis ..
    next
      case 2
      from assms(3) have "rat_of_int m * pow2 e < rat_of_int 7629394531250000 * pow2 17"
        unfolding 2 l num_less_Fin_iff .
      moreover have "0 \<le> m" using to_double_nonneg[OF assms(2,1) 2] .
      ultimately show ?thesis using 2 v by simp
    qed
  qed
qed

lemma below_1e21_bound:
  assumes "0 < q" and "0 \<le> amt" and "amt \<le> 999999999999999868928 * q"
  shows "num_less (to_double amt q) (to_double (10 ^ 21) 1)"
proof -
  have l: "to_double (10 ^ 21) 1 = Fin 7629394531250000 17" by code_simp
  from below_1e21[OF assms] obtain m e
    where me: "to_double amt q = Fin m e" "rat_of_int m * pow2 e < 10 ^ 21" by blast
  have "rat_of_int 7629394531250000 * pow2 17 = 10 ^ 21" by (simp add: pow2_def)
  with me(2) have "rat_of_int m * pow2 e < rat_of_int 7629394531250000 * pow2 17" by simp
  then show ?thesis unfolding me(1) l num_less_Fin_iff .
qed

lemma formatEthFromWei_renders:
  assumes "0 \<le> amt" and "num_less (to_double amt (10 ^ 18)) (to_double (10 ^ 21) 1)"
  shows "formatEthFromWei (Numeric amt)
     = Inr (render_up_to (if 10 ^ 15 \<le> amt then 6 else 9) (to_double amt (10 ^ 18)))"
proof -
  from below_1e21_less[OF _ assms] obtain m e
    where me: "to_double amt (10 ^ 18) = Fin m e" "0 \<le> m" "rat_of_int m * pow2 e < 10 ^ 21"
    by auto
  have r6: "replace_trailing_zeros (toFixed 6 (Fin m e)) = render_up_to 6 (Fin m e)"
    and r9: "replace_trailing_zeros (toFixed 9 (Fin m e)) = render_up_to 9 (Fin m e)"
    using me(2,3) by (simp_all only: toFixed_trimmed zero_less_numeral)
  have t: "num_ge (Fin m e) (to_double 1 1000) \<longleftrightarrow> 10 ^ 15 \<le> amt"
    using eth_tier_0001[OF assms(1)] by (simp only: me(1))
  have one: "10 ^ 15 \<le> amt" if "num_ge (Fin m e) (to_double 1 1)"
  proof -
    from that have "1 \<le> rat_of_int m * pow2 e"
      unfolding num_ge_def literal_values num_le_Fin_iff by (simp add: pow2_def)
    moreover have "rat_of_int 4611686018427388 * pow2 (- 62) \<le> 1" by (simp add: pow2_def)
    ultimately have "num_le (Fin 4611686018427388 (- 62)) (Fin m e)"
      unfolding num_le_Fin_iff by simp
    then show ?thesis using t by (simp add: num_ge_def literal_values)
  qed
  have "formatEthFromWei (Numeric amt)
      = Inr (if num_ge (Fin m e) (to_double 1 1) then replace_trailing_zeros (toFixed 6 (Fin m e))
             else if num_ge (Fin m e) (to_double 1 1000) then replace_trailing_zeros (toFixed 6 (Fin m e))
             else replace_trailing_zeros (toFixed 9 (Fin m e)))"
    by (simp only: formatEthFromWei_def BigNumberish.case Let_def me(1))
  also have "\<dots> = Inr (if num_ge (Fin m e) (to_double 1 1) then render_up_to 6 (Fin m e)
             else if 10 ^ 15 \<le> amt then render_up_to 6 (Fin m e)
             else render_up_to 9 (Fin m e))"
    by (simp only: t r6 r9)
  also have "\<dots> = Inr (render_up_to (if 10 ^ 15 \<le> amt then 6 else 9) (Fin m e))"
    using one by auto
  finally show ?thesis by (simp only: me(1))
qed

lemma formatGweiFromWei_renders:
  assumes "0 \<le> amt" and "num_less (to_double amt (10 ^ 9)) (to_double (10 ^ 21) 1)"
  shows "formatGweiFromWei (Numeric amt)
     = Inr (render_up_to (if 10 ^ 12 \<le> amt then 0 else if 10 ^ 9 \<le> amt then 3 else 6)
              (to_double amt (10 ^ 9)))"
proof -
  from below_1e21_less[OF _ assms] obtain m e
    where me: "to_double amt (10 ^ 9) = Fin m e" "0 \<le> m" "rat_of_int m * pow2 e < 10 ^ 21"
    by auto
  have r0: "toFixed 0 (Fin m e) = render_up_to 0 (Fin m e)"
    using me(2,3) by (rule toFixed_0)
  have r3: "replace_trailing_zeros (toFixed 3 (Fin m e)) = render_up_to 3 (Fin m e)"
    and r6: "replace_trailing_zeros (toFixed 6 (Fin m e)) = render_up_to 6 (Fin m e)"
    using me(2,3) by (simp_all only: toFixed_trimmed zero_less_numeral)
  have t1000: "num_ge (Fin m e) (to_double 1000 1) \<longleftrightarrow> 10 ^ 12 \<le> amt"
    using gwei_tier_1000[OF assms(1)] by (simp only: me(1))
  have t1: "num_ge (Fin m e) (to_double 1 1) \<longleftrightarrow> 10 ^ 9 \<le> amt"
    using gwei_tier_1[OF assms(1)] by (simp only: me(1))
  have "formatGweiFromWei (Numeric amt)
      = Inr (if num_ge (Fin m e) (to_double 1000 1) then toFixed 0 (Fin m e)
             else if num_ge (Fin m e) (to_double 1 1) then replace_trailing_zeros (toFixed 3 (Fin m e))
             else replace_trailing_zeros (toFixed 6 (Fin m e)))"
    by (simp only: formatGweiFromWei_def BigNumberish.case Let_def me(1))
  also have "\<dots> = Inr (if 10 ^ 12 \<le> amt then render_up_to 0 (Fin m e)
             else if 10 ^ 9 \<le> amt then render_up_to 3 (Fin m e)
             else render_up_to 6 (Fin m e))"
    by (simp only: t1000 t1 r0 r3 r6)
  also have "\<dots> = Inr (render_up_to (if 10 ^ 12 \<le> amt then 0 else if 10 ^ 9 \<le> amt then 3 else 6)
              (Fin m e))"
    by auto
  finally show ?thesis by (simp only: me(1))
qed

lemma quotient_relative_error:
  assumes "0 < amt" and "0 < k" and "k \<le> 18"
    and "num_less (to_double amt (10 ^ k)) (to_double (10 ^ 21) 1)"
  shows "\<bar>value_of (to_double amt (10 ^ k)) - rat_of_int amt / 10 ^ k\<bar>
           \<le> rat_of_int amt / 10 ^ k / 2 ^ 53"
proof -
  from below_1e21_less[OF _ _ assms(4)] assms(1) obtain m e
    where me: "to_double amt (10 ^ k) = Fin m e" by auto
  have "(10::rat) ^ k \<le> 10 ^ 18" using assms(3) by (intro power_increasing) simp_all
  also have "\<dots> \<le> 2 ^ 1022" by simp
  finally have "(10::rat) ^ k / 2 ^ 1022 \<le> 1" by simp
  also have "\<dots> \<le> rat_of_int amt" using assms(1) by simp
  finally have "pow2 (- 1022) * rat_of_int (10 ^ k) \<le> rat_of_int amt"
    by (simp add: pow2_def)
  from to_double_relative_error[OF assms(1) _ me this] show ?thesis by simp
qed


text \<open>
  C6. \<open>formatEthFromWei\<close> is to divide the amount by \<open>10 ^ 18\<close> and to render the
  quotient with up to 6 decimal places if it is at least 0.001 and with up to 9
  otherwise, without trailing zeros; \<open>10 ^ 18\<close> wei give \<open>1\<close> and \<open>10 ^ 17\<close> wei give
  \<open>0.1\<close>. In the code the quotient is a Number, the one nearest to
  \<open>amt / 10 ^ 18\<close>, and it is this Number that is rendered, rounded to the nearest
  multiple of the last place (\<open>nearest_units_near\<close>): as long as the Number is below
  \<open>10 ^ 21\<close>, which it is up to \<open>(10 ^ 21 - 2 ^ 17) * 10 ^ 18\<close> wei, the result is its
  rendering with up to 6 places from \<open>10 ^ 15\<close> wei on and with up to 9 below. The
  Number is within \<open>2 ^ - 53\<close> of the quotient, relatively.
\<close>

theorem formatEthFromWei_spec:
  "(0 \<le> amt \<and> num_less (to_double amt (10 ^ 18)) (to_double (10 ^ 21) 1) \<longrightarrow>
      formatEthFromWei (Numeric amt)
        = Inr (render_up_to (if 10 ^ 15 \<le> amt then 6 else 9) (to_double amt (10 ^ 18))))
   \<and> (0 \<le> amt \<and> amt \<le> 999999999999999868928 * 10 ^ 18 \<longrightarrow>
        num_less (to_double amt (10 ^ 18)) (to_double (10 ^ 21) 1))
   \<and> (0 < amt \<and> num_less (to_double amt (10 ^ 18)) (to_double (10 ^ 21) 1) \<longrightarrow>
        \<bar>value_of (to_double amt (10 ^ 18)) - rat_of_int amt / 10 ^ 18\<bar>
          \<le> rat_of_int amt / 10 ^ 18 / 2 ^ 53)
   \<and> formatEthFromWei (Numeric (10 ^ 18)) = Inr ''1''
   \<and> formatEthFromWei (Numeric (10 ^ 17)) = Inr ''0.1''"
proof -
  have "formatEthFromWei (Numeric (10 ^ 18)) = Inr ''1''"
    and "formatEthFromWei (Numeric (10 ^ 17)) = Inr ''0.1''"
    by code_simp+
  moreover have "0 \<le> amt \<and> amt \<le> 999999999999999868928 * 10 ^ 18 \<longrightarrow>
        num_less (to_double amt (10 ^ 18)) (to_double (10 ^ 21) 1)"
    using below_1e21_bound[of "10 ^ 18" amt] by simp
  moreover have "0 < amt \<and> num_less (to_double amt (10 ^ 18)) (to_double (10 ^ 21) 1) \<longrightarrow>
        \<bar>value_of (to_double amt (10 ^ 18)) - rat_of_int amt / 10 ^ 18\<bar>
          \<le> rat_of_int amt / 10 ^ 18 / 2 ^ 53"
    using quotient_relative_error[of amt 18] by simp
  ultimately show ?thesis using formatEthFromWei_renders[of amt] by blast
qed

theorem formatEthFromWei_spec_witness:
  "(0 :: int) < 39837000000000 \<and> (39837000000000 :: int) \<le> 999999999999999868928 * 10 ^ 18
   \<and> num_less (to_double 39837000000000 (10 ^ 18)) (to_double (10 ^ 21) 1)
   \<and> formatEthFromWei (Numeric 39837000000000)
       = Inr (render_up_to 9 (to_double 39837000000000 (10 ^ 18)))
   \<and> \<bar>value_of (to_double 39837000000000 (10 ^ 18)) - rat_of_int 39837000000000 / 10 ^ 18\<bar>
          \<le> rat_of_int 39837000000000 / 10 ^ 18 / 2 ^ 53
   \<and> (0 :: int) < 2500000000000000000
   \<and> (2500000000000000000 :: int) \<le> 999999999999999868928 * 10 ^ 18
   \<and> num_less (to_double 2500000000000000000 (10 ^ 18)) (to_double (10 ^ 21) 1)
   \<and> formatEthFromWei (Numeric 2500000000000000000)
       = Inr (render_up_to 6 (to_double 2500000000000000000 (10 ^ 18)))"
proof -
  have a: "(0 :: int) < 39837000000000 \<and> (39837000000000 :: int) \<le> 999999999999999868928 * 10 ^ 18"
    and b: "(0 :: int) < 2500000000000000000
            \<and> (2500000000000000000 :: int) \<le> 999999999999999868928 * 10 ^ 18"
    by simp_all
  from formatEthFromWei_spec[of 39837000000000] a
  have "num_less (to_double 39837000000000 (10 ^ 18)) (to_double (10 ^ 21) 1)
     \<and> formatEthFromWei (Numeric 39837000000000)
       = Inr (render_up_to 9 (to_double 39837000000000 (10 ^ 18)))
     \<and> \<bar>value_of (to_double 39837000000000 (10 ^ 18)) - rat_of_int 39837000000000 / 10 ^ 18\<bar>
          \<le> rat_of_int 39837000000000 / 10 ^ 18 / 2 ^ 53"
    by simp
  moreover from formatEthFromWei_spec[of 2500000000000000000] b
  have "num_less (to_double 2500000000000000000 (10 ^ 18)) (to_double (10 ^ 21) 1)
     \<and> formatEthFromWei (Numeric 2500000000000000000)
       = Inr (render_up_to 6 (to_double 2500000000000000000 (10 ^ 18)))"
    by simp
  ultimately show ?thesis using a b by blast
qed

text \<open>
  At 1000000499999999999 wei the quotient rounds to \<open>1\<close> at 6 places, but the nearest
  Number is that of 1.0000005, which rounds to \<open>1.000001\<close>. At \<open>10 ^ 39\<close> wei the
  quotient is \<open>10 ^ 21\<close>, which \<open>toFixed\<close> writes in exponent notation.
\<close>

theorem formatEthFromWei_counterexample:
  "formatEthFromWei (Numeric 1000000499999999999) = Inr ''1.000001''
   \<and> render_quotient 6 1000000499999999999 (10 ^ 18) = ''1''
   \<and> to_double 1000000499999999999 (10 ^ 18) = to_double 10000005 (10 ^ 7)
   \<and> formatEthFromWei (Numeric (10 ^ 39)) = Inr ''1e+21''
   \<and> render_quotient 6 (10 ^ 39) (10 ^ 18) = ''1000000000000000000000''"
  by code_simp

text \<open>
  C7. \<open>formatGweiFromWei\<close> is to divide the amount by \<open>10 ^ 9\<close> and to render the
  quotient with no decimal place if it is at least 1000, with up to 3 if it is at least
  1 and with up to 6 otherwise, without trailing zeros and without a trailing point;
  \<open>10 ^ 9\<close> wei give \<open>1\<close> and \<open>1.5 * 10 ^ 9\<close> wei give \<open>1.5\<close>. In the code the
  quotient is a Number, the one nearest to \<open>amt / 10 ^ 9\<close>, and it is this Number
  that is rendered, rounded to the nearest multiple of the last place: as long as the
  Number is below \<open>10 ^ 21\<close>, which it is up to \<open>(10 ^ 21 - 2 ^ 17) * 10 ^ 9\<close> wei, the
  result is its rendering with no place from \<open>10 ^ 12\<close> wei on, with up to 3 places
  from \<open>10 ^ 9\<close> wei on and with up to 6 below. The Number is within \<open>2 ^ - 53\<close> of
  the quotient, relatively.
\<close>

theorem formatGweiFromWei_spec:
  "(0 \<le> amt \<and> num_less (to_double amt (10 ^ 9)) (to_double (10 ^ 21) 1) \<longrightarrow>
      formatGweiFromWei (Numeric amt)
        = Inr (render_up_to (if 10 ^ 12 \<le> amt then 0 else if 10 ^ 9 \<le> amt then 3 else 6)
                 (to_double amt (10 ^ 9))))
   \<and> (0 \<le> amt \<and> amt \<le> 999999999999999868928 * 10 ^ 9 \<longrightarrow>
        num_less (to_double amt (10 ^ 9)) (to_double (10 ^ 21) 1))
   \<and> (0 < amt \<and> num_less (to_double amt (10 ^ 9)) (to_double (10 ^ 21) 1) \<longrightarrow>
        \<bar>value_of (to_double amt (10 ^ 9)) - rat_of_int amt / 10 ^ 9\<bar>
          \<le> rat_of_int amt / 10 ^ 9 / 2 ^ 53)
   \<and> formatGweiFromWei (Numeric (10 ^ 9)) = Inr ''1''
   \<and> formatGweiFromWei (Numeric (15 * 10 ^ 8)) = Inr ''1.5''"
proof -
  have "formatGweiFromWei (Numeric (10 ^ 9)) = Inr ''1''"
    and "formatGweiFromWei (Numeric (15 * 10 ^ 8)) = Inr ''1.5''"
    by code_simp+
  moreover have "0 \<le> amt \<and> amt \<le> 999999999999999868928 * 10 ^ 9 \<longrightarrow>
        num_less (to_double amt (10 ^ 9)) (to_double (10 ^ 21) 1)"
    using below_1e21_bound[of "10 ^ 9" amt] by simp
  moreover have "0 < amt \<and> num_less (to_double amt (10 ^ 9)) (to_double (10 ^ 21) 1) \<longrightarrow>
        \<bar>value_of (to_double amt (10 ^ 9)) - rat_of_int amt / 10 ^ 9\<bar>
          \<le> rat_of_int amt / 10 ^ 9 / 2 ^ 53"
    using quotient_relative_error[of amt 9] by simp
  ultimately show ?thesis using formatGweiFromWei_renders[of amt] by blast
qed

theorem formatGweiFromWei_spec_witness:
  "(0 :: int) < 1897000 \<and> (1897000 :: int) \<le> 999999999999999868928 * 10 ^ 9
   \<and> num_less (to_double 1897000 (10 ^ 9)) (to_double (10 ^ 21) 1)
   \<and> formatGweiFromWei (Numeric 1897000) = Inr (render_up_to 6 (to_double 1897000 (10 ^ 9)))
   \<and> \<bar>value_of (to_double 1897000 (10 ^ 9)) - rat_of_int 1897000 / 10 ^ 9\<bar>
          \<le> rat_of_int 1897000 / 10 ^ 9 / 2 ^ 53
   \<and> (0 :: int) < 2500000000 \<and> (2500000000 :: int) \<le> 999999999999999868928 * 10 ^ 9
   \<and> num_less (to_double 2500000000 (10 ^ 9)) (to_double (10 ^ 21) 1)
   \<and> formatGweiFromWei (Numeric 2500000000) = Inr (render_up_to 3 (to_double 2500000000 (10 ^ 9)))
   \<and> (0 :: int) < 5000000000000 \<and> (5000000000000 :: int) \<le> 999999999999999868928 * 10 ^ 9
   \<and> num_less (to_double 5000000000000 (10 ^ 9)) (to_double (10 ^ 21) 1)
   \<and> formatGweiFromWei (Numeric 5000000000000) = Inr (render_up_to 0 (to_double 5000000000000 (10 ^ 9)))"
proof -
  have a: "(0 :: int) < 1897000 \<and> (1897000 :: int) \<le> 999999999999999868928 * 10 ^ 9"
    and b: "(0 :: int) < 2500000000 \<and> (2500000000 :: int) \<le> 999999999999999868928 * 10 ^ 9"
    and c: "(0 :: int) < 5000000000000 \<and> (5000000000000 :: int) \<le> 999999999999999868928 * 10 ^ 9"
    by simp_all
  from formatGweiFromWei_spec[of 1897000] a
  have "num_less (to_double 1897000 (10 ^ 9)) (to_double (10 ^ 21) 1)
     \<and> formatGweiFromWei (Numeric 1897000) = Inr (render_up_to 6 (to_double 1897000 (10 ^ 9)))
     \<and> \<bar>value_of (to_double 1897000 (10 ^ 9)) - rat_of_int 1897000 / 10 ^ 9\<bar>
          \<le> rat_of_int 1897000 / 10 ^ 9 / 2 ^ 53"
    by simp
  moreover from formatGweiFromWei_spec[of 2500000000] b
  have "num_less (to_double 2500000000 (10 ^ 9)) (to_double (10 ^ 21) 1)
     \<and> formatGweiFromWei (Numeric 2500000000) = Inr (render_up_to 3 (to_double 2500000000 (10 ^ 9)))"
    by simp
  moreover from formatGweiFromWei_spec[of 5000000000000] c
  have "num_less (to_double 5000000000000 (10 ^ 9)) (to_double (10 ^ 21) 1)
     \<and> formatGweiFromWei (Numeric 5000000000000) = Inr (render_up_to 0 (to_double 5000000000000 (10 ^ 9)))"
    by simp
  ultimately show ?thesis using a b c by blast
qed

text \<open>
  At \<open>(2 ^ 53 + 1) * 10 ^ 9\<close> wei the quotient is the integer \<open>2 ^ 53 + 1\<close>, but the
  nearest Number is \<open>2 ^ 53\<close>. At \<open>10 ^ 30\<close> wei the quotient is \<open>10 ^ 21\<close>, which
  \<open>toFixed\<close> writes in exponent notation.
\<close>

theorem formatGweiFromWei_counterexample:
  "formatGweiFromWei (Numeric (9007199254740993 * 10 ^ 9)) = Inr ''9007199254740992''
   \<and> render_quotient 0 (9007199254740993 * 10 ^ 9) (10 ^ 9) = ''9007199254740993''
   \<and> formatGweiFromWei (Numeric (10 ^ 30)) = Inr ''1e+21''
   \<and> render_quotient 0 (10 ^ 30) (10 ^ 9) = ''1000000000000000000000''"
  by code_simp

text \<open>The renderings of the instances above, and of their exact quotients.\<close>

lemma render_examples:
  "render_up_to 9 (to_double 39837000000000 (10 ^ 18)) = ''0.000039837''"
  "render_up_to 6 (to_double 2500000000000000000 (10 ^ 18)) = ''2.5''"
  "render_up_to 0 (to_double 5000000000000 (10 ^ 9)) = ''5000''"
  "render_quotient 9 39837000000000 (10 ^ 18) = ''0.000039837''"
  "render_quotient 6 2500000000000000000 (10 ^ 18) = ''2.5''"
  "render_quotient 0 5000000000000 (10 ^ 9) = ''5000''"
  by code_simp+

end
